theory Spec2Isabelle
  imports Main "HOL-Library.Multiset"
begin

section \<open>Dates, times and durations\<close>

text \<open>
  The program works on Python's \<^verbatim>\<open>datetime\<close> and \<^verbatim>\<open>timedelta\<close> values.

  \<^item> A \<^verbatim>\<open>timedelta\<close> is a number of microseconds (an \<open>int\<close>). Python bounds a
    \<^verbatim>\<open>timedelta\<close> to 999999999 days on either side; the bound is written out where a
    \<^verbatim>\<open>timedelta\<close> is built from an input (\<open>timedelta_minutes\<close>) and where one is
    added to a \<^verbatim>\<open>datetime\<close> (\<open>dt_add\<close>). The difference of two datetimes is far
    inside the bound; it and the sums and differences of durations are computed on
    \<open>int\<close> (they could leave Python's range only with charge times or candidate periods
    of millions of years).
  \<^item> A \<^verbatim>\<open>datetime\<close> is timezone-aware, as \<^verbatim>\<open>datetime.fromisoformat\<close> gives it for a
    string with an offset and as \<^verbatim>\<open>parse_co2_timestamp\<close> builds it: the record holds
    the local calendar day as Python's proleptic Gregorian ordinal (day 1 is 0001-01-01,
    day 3652059 is 9999-12-31), the local hour, minute, second and microsecond, and the
    fixed UTC offset in microseconds.
  \<^item> Python compares and subtracts aware datetimes by their UTC instants, and raises
    \<^verbatim>\<open>OverflowError\<close> when an addition leaves the years 1 to 9999 and
    \<^verbatim>\<open>ValueError\<close> when \<^verbatim>\<open>replace\<close> gets an hour outside 0..23 or a minute outside
    0..59. Both are results of the model.
\<close>

datatype error = ValueError | OverflowError

type_synonym timedelta = int

record datetime =
  dt_ordinal :: int
  dt_hour :: int
  dt_minute :: int
  dt_second :: int
  dt_microsecond :: int
  dt_utcoffset :: int

type_synonym period = "datetime \<times> datetime"

definition MAXORDINAL :: int where
  "MAXORDINAL = 3652059"

definition us_per_day :: int where
  "us_per_day = 86400000000"

definition timedelta_days :: "int \<Rightarrow> timedelta" where
  "timedelta_days n = n * us_per_day"

definition timedelta_weeks :: "int \<Rightarrow> timedelta" where
  "timedelta_weeks n = n * 7 * us_per_day"

text \<open>\<^verbatim>\<open>timedelta(minutes=m)\<close>: the normalised day count must stay within 999999999.\<close>

definition timedelta_minutes :: "int \<Rightarrow> error + timedelta" where
  "timedelta_minutes m =
     (let us = m * 60000000 in
      if abs (us div us_per_day) \<le> 999999999 then Inr us else Inl OverflowError)"

text \<open>The local fields as one number of microseconds, and the UTC instant.\<close>

definition local_us :: "datetime \<Rightarrow> int" where
  "local_us d =
     (((dt_ordinal d * 24 + dt_hour d) * 60 + dt_minute d) * 60 + dt_second d) * 1000000
       + dt_microsecond d"

definition utc_us :: "datetime \<Rightarrow> int" where
  "utc_us d = local_us d - dt_utcoffset d"

definition of_local_us :: "int \<Rightarrow> int \<Rightarrow> datetime" where
  "of_local_us n off =
     \<lparr>dt_ordinal = n div 86400000000,
      dt_hour = n mod 86400000000 div 3600000000,
      dt_minute = n mod 3600000000 div 60000000,
      dt_second = n mod 60000000 div 1000000,
      dt_microsecond = n mod 1000000,
      dt_utcoffset = off\<rparr>"

text \<open>The datetimes Python can hold.\<close>

definition valid_datetime :: "datetime \<Rightarrow> bool" where
  "valid_datetime d \<longleftrightarrow>
     1 \<le> dt_ordinal d \<and> dt_ordinal d \<le> MAXORDINAL \<and>
     0 \<le> dt_hour d \<and> dt_hour d \<le> 23 \<and>
     0 \<le> dt_minute d \<and> dt_minute d \<le> 59 \<and>
     0 \<le> dt_second d \<and> dt_second d \<le> 59 \<and>
     0 \<le> dt_microsecond d \<and> dt_microsecond d \<le> 999999 \<and>
     - us_per_day < dt_utcoffset d \<and> dt_utcoffset d < us_per_day"

text \<open>Comparison, equality and difference of aware datetimes.\<close>

definition dt_le :: "datetime \<Rightarrow> datetime \<Rightarrow> bool" where
  "dt_le a b \<longleftrightarrow> utc_us a \<le> utc_us b"

definition dt_lt :: "datetime \<Rightarrow> datetime \<Rightarrow> bool" where
  "dt_lt a b \<longleftrightarrow> utc_us a < utc_us b"

definition dt_eq :: "datetime \<Rightarrow> datetime \<Rightarrow> bool" where
  "dt_eq a b \<longleftrightarrow> utc_us a = utc_us b"

definition dt_sub :: "datetime \<Rightarrow> datetime \<Rightarrow> timedelta" where
  "dt_sub a b = utc_us a - utc_us b"

text \<open>\<^verbatim>\<open>max(a, b)\<close> and \<^verbatim>\<open>min(a, b)\<close> keep the first argument on a tie.\<close>

definition dt_max :: "datetime \<Rightarrow> datetime \<Rightarrow> datetime" where
  "dt_max a b = (if dt_lt a b then b else a)"

definition dt_min :: "datetime \<Rightarrow> datetime \<Rightarrow> datetime" where
  "dt_min a b = (if dt_lt b a then b else a)"

text \<open>
  \<^verbatim>\<open>d + td\<close>: the sum is taken on the local fields, the offset is kept, and the day
  must stay within 1..MAXORDINAL.
\<close>

definition dt_add :: "datetime \<Rightarrow> timedelta \<Rightarrow> error + datetime" where
  "dt_add d td =
     (let n = local_us d + td; days = n div us_per_day in
      if 0 < days \<and> days \<le> MAXORDINAL then Inr (of_local_us n (dt_utcoffset d))
      else Inl OverflowError)"

text \<open>\<^verbatim>\<open>d.replace(hour=h, minute=m)\<close>: every other field is kept.\<close>

definition replace_hour_minute :: "datetime \<Rightarrow> int \<Rightarrow> int \<Rightarrow> error + datetime" where
  "replace_hour_minute d h m =
     (if 0 \<le> h \<and> h \<le> 23 \<and> 0 \<le> m \<and> m \<le> 59
      then Inr (d\<lparr>dt_hour := h, dt_minute := m\<rparr>)
      else Inl ValueError)"

text \<open>
  Calendar dates for the examples: the ordinal of a year, month and day, as Python's
  \<^verbatim>\<open>date.toordinal\<close> computes it.
\<close>

definition is_leap :: "int \<Rightarrow> bool" where
  "is_leap y \<longleftrightarrow> y mod 4 = 0 \<and> (if y mod 100 = 0 then y mod 400 = 0 else True)"

definition days_before_year :: "int \<Rightarrow> int" where
  "days_before_year y = (y - 1) * 365 + (y - 1) div 4 - (y - 1) div 100 + (y - 1) div 400"

definition days_before_month :: "int \<Rightarrow> int \<Rightarrow> int" where
  "days_before_month y m =
     [0, 31, 59, 90, 120, 151, 181, 212, 243, 273, 304, 334] ! nat (m - 1)
       + (if 2 < m \<and> is_leap y then 1 else 0)"

definition ymd2ord :: "int \<Rightarrow> int \<Rightarrow> int \<Rightarrow> int" where
  "ymd2ord y m d = days_before_year y + days_before_month y m + d"

text \<open>A UTC datetime from year, month, day, hour, minute and second.\<close>

definition utc_datetime :: "int \<Rightarrow> int \<Rightarrow> int \<Rightarrow> int \<Rightarrow> int \<Rightarrow> int \<Rightarrow> datetime" where
  "utc_datetime y mo d h mi s =
     \<lparr>dt_ordinal = ymd2ord y mo d, dt_hour = h, dt_minute = mi, dt_second = s,
      dt_microsecond = 0, dt_utcoffset = 0\<rparr>"

section \<open>utils.py\<close>

text \<open>
  \<^verbatim>\<open>next_datetime_with_time(current, time)\<close>. The string \<^verbatim>\<open>time\<close> is taken already
  split by \<^verbatim>\<open>parse_time\<close> into its hour and minute.
\<close>

definition next_datetime_with_time :: "datetime \<Rightarrow> int \<times> int \<Rightarrow> error + datetime" where
  "next_datetime_with_time current time =
     (case time of (hour, minute) \<Rightarrow>
        (case replace_hour_minute current hour minute of
           Inl e \<Rightarrow> Inl e
         | Inr this_time_same_day \<Rightarrow>
             if dt_le this_time_same_day current
             then dt_add this_time_same_day (timedelta_days 1)
             else Inr this_time_same_day))"

definition duration :: "period \<Rightarrow> timedelta" where
  "duration period = (case period of (period_from, period_to) \<Rightarrow> dt_sub period_to period_from)"

definition total_duration :: "period list \<Rightarrow> timedelta" where
  "total_duration periods = foldl (+) 0 (map duration periods)"

text \<open>
  \<^verbatim>\<open>load_co2_measures()\<close> reads a file; its result, the list of readings, is an
  argument of the model. A reading has a start, an end and an intensity; the
  intensities are taken as integers, as the feed gives them.
\<close>

record co2_measure =
  co2_from :: datetime
  co2_to :: datetime
  co2_intensity :: int

section \<open>schedule.py\<close>

subsection \<open>simplify_periods\<close>

text \<open>
  \<^verbatim>\<open>sorted(periods, key=lambda p: p[0])\<close>: a stable sort on the start, and datetimes
  are ordered by their UTC instants.
\<close>

definition simplify_periods :: "period list \<Rightarrow> period list" where
  "simplify_periods periods = sort_key (\<lambda>p. utc_us (fst p)) periods"

subsection \<open>off_peak_and_peak_periods\<close>

definition off_peak_and_peak_periods ::
  "datetime \<Rightarrow> datetime \<Rightarrow> int \<times> int \<Rightarrow> int \<times> int \<Rightarrow> error + (period list \<times> period list)" where
  "off_peak_and_peak_periods plug_in ready_by off_peak_start off_peak_end =
     (case next_datetime_with_time plug_in off_peak_start of
        Inl e \<Rightarrow> Inl e
      | Inr next_off_peak_start \<Rightarrow>
     (case next_datetime_with_time plug_in off_peak_end of
        Inl e \<Rightarrow> Inl e
      | Inr next_off_peak_end \<Rightarrow>
          Inr (if dt_eq next_off_peak_start next_off_peak_end then
                 ([], [(plug_in, ready_by)])
               else if dt_lt next_off_peak_start next_off_peak_end then
                 (if dt_lt next_off_peak_start ready_by then
                    (if dt_lt next_off_peak_end ready_by then
                       ([(next_off_peak_start, next_off_peak_end)],
                        [(plug_in, next_off_peak_start), (next_off_peak_end, ready_by)])
                     else
                       ([(next_off_peak_start, ready_by)],
                        [(plug_in, next_off_peak_start)]))
                  else
                    ([], [(plug_in, ready_by)]))
               else
                 (if dt_lt next_off_peak_start ready_by then
                    ([(plug_in, next_off_peak_end), (next_off_peak_start, ready_by)],
                     [(next_off_peak_end, next_off_peak_start)])
                  else
                    (if dt_lt next_off_peak_end ready_by then
                       ([(plug_in, next_off_peak_end)],
                        [(next_off_peak_end, ready_by)])
                     else
                       ([(plug_in, ready_by)], [(plug_in, ready_by)]))))))"

subsection \<open>optimize_co2\<close>

text \<open>An entry of \<^verbatim>\<open>co2_forecasts\<close>: the dictionary with keys from, to and forecast.\<close>

record co2_forecast =
  fc_from :: datetime
  fc_to :: datetime
  fc_forecast :: int

definition shift_to_forecast :: timedelta where
  "shift_to_forecast = timedelta_weeks 1"

text \<open>
  One step of the comprehension, for one reading and one period: the condition is
  evaluated left to right (the second sum only when the first comparison holds), and
  the entry is built when both comparisons hold.
\<close>

definition clip_forecast :: "co2_measure \<Rightarrow> period \<Rightarrow> error + co2_forecast list" where
  "clip_forecast co2 period =
     (case period of (period_from, period_to) \<Rightarrow>
        (case dt_add (co2_from co2) shift_to_forecast of
           Inl e \<Rightarrow> Inl e
         | Inr shifted_from \<Rightarrow>
             if dt_le shifted_from period_to then
               (case dt_add (co2_to co2) shift_to_forecast of
                  Inl e \<Rightarrow> Inl e
                | Inr shifted_to \<Rightarrow>
                    if dt_le period_from shifted_to then
                      Inr [\<lparr>fc_from = dt_max shifted_from period_from,
                            fc_to = dt_min shifted_to period_to,
                            fc_forecast = co2_intensity co2\<rparr>]
                    else Inr [])
             else Inr []))"

text \<open>A \<^verbatim>\<open>for\<close> clause of a comprehension: the results in order, or the first error.\<close>

fun collect :: "('a \<Rightarrow> error + 'b list) \<Rightarrow> 'a list \<Rightarrow> error + 'b list" where
  "collect f [] = Inr []"
| "collect f (x # xs) =
     (case f x of
        Inl e \<Rightarrow> Inl e
      | Inr ys \<Rightarrow> (case collect f xs of Inl e \<Rightarrow> Inl e | Inr zs \<Rightarrow> Inr (ys @ zs)))"

definition co2_forecasts :: "period list \<Rightarrow> co2_measure list \<Rightarrow> error + co2_forecast list" where
  "co2_forecasts periods co2_measures =
     collect (\<lambda>co2. collect (\<lambda>period. clip_forecast co2 period) periods) co2_measures"

text \<open>
  The loop over \<^verbatim>\<open>sorted_co2_forecasts\<close>, with its two variables
  \<^verbatim>\<open>remaining_charge_timedelta\<close> and \<^verbatim>\<open>charging_periods\<close>; \<^verbatim>\<open>break\<close> returns the
  periods collected so far.
\<close>

fun charge_loop :: "timedelta \<Rightarrow> period list \<Rightarrow> co2_forecast list \<Rightarrow> error + period list" where
  "charge_loop remaining_charge_timedelta charging_periods [] = Inr charging_periods"
| "charge_loop remaining_charge_timedelta charging_periods (co2 # rest) =
     (if remaining_charge_timedelta \<le> 0 then Inr charging_periods
      else
        let co2_period = (fc_from co2, fc_to co2) in
        if duration co2_period < remaining_charge_timedelta then
          charge_loop (remaining_charge_timedelta - duration co2_period)
            (charging_periods @ [co2_period]) rest
        else
          (case dt_add (fc_from co2) remaining_charge_timedelta of
             Inl e \<Rightarrow> Inl e
           | Inr prefix_end \<Rightarrow>
               charge_loop (remaining_charge_timedelta - duration co2_period)
                 (charging_periods @ [(fc_from co2, prefix_end)]) rest))"

definition optimize_co2 ::
  "period list \<Rightarrow> timedelta \<Rightarrow> co2_measure list \<Rightarrow> error + period list" where
  "optimize_co2 periods charge_time co2_measures =
     (if total_duration periods \<le> charge_time then Inr periods
      else
        (case co2_forecasts periods co2_measures of
           Inl e \<Rightarrow> Inl e
         | Inr forecasts \<Rightarrow>
             (case charge_loop charge_time [] (sort_key fc_forecast forecasts) of
                Inl e \<Rightarrow> Inl e
              | Inr charging_periods \<Rightarrow> Inr (simplify_periods charging_periods))))"

subsection \<open>schedule\<close>

text \<open>
  Lines 30 to 53 of \<^verbatim>\<open>schedule\<close>: the list \<^verbatim>\<open>charging_periods\<close> before it is
  sorted.
\<close>

definition charging_periods_of ::
  "datetime \<Rightarrow> datetime \<Rightarrow> timedelta \<Rightarrow> int \<times> int \<Rightarrow> int \<times> int \<Rightarrow> co2_measure list
     \<Rightarrow> error + period list" where
  "charging_periods_of plug_in_datetime ready_by_datetime charge_time off_peak_start off_peak_end
       co2_measures =
     (case off_peak_and_peak_periods plug_in_datetime ready_by_datetime off_peak_start off_peak_end of
        Inl e \<Rightarrow> Inl e
      | Inr (off_peak_periods, peak_periods) \<Rightarrow>
          let off_peak_periods_duration = total_duration off_peak_periods in
          if charge_time \<le> off_peak_periods_duration then
            optimize_co2 off_peak_periods charge_time co2_measures
          else
            (case optimize_co2 peak_periods (charge_time - off_peak_periods_duration) co2_measures of
               Inl e \<Rightarrow> Inl e
             | Inr optimized \<Rightarrow> Inr (off_peak_periods @ optimized)))"

text \<open>
  \<^verbatim>\<open>schedule\<close>. The plug-in time is taken as the datetime that
  \<^verbatim>\<open>datetime.fromisoformat\<close> returns, the three times of day as parsed by
  \<^verbatim>\<open>parse_time\<close>, and \<^verbatim>\<open>charge_time\<close> is the integer number of minutes.
\<close>

definition schedule ::
  "int \<times> int \<Rightarrow> int \<Rightarrow> datetime \<Rightarrow> int \<times> int \<Rightarrow> int \<times> int \<Rightarrow> co2_measure list
     \<Rightarrow> error + period list" where
  "schedule ready_by charge_time plug_in_datetime off_peak_start off_peak_end co2_measures =
     (case timedelta_minutes charge_time of
        Inl e \<Rightarrow> Inl e
      | Inr charge_timedelta \<Rightarrow>
     (case next_datetime_with_time plug_in_datetime ready_by of
        Inl e \<Rightarrow> Inl e
      | Inr ready_by_datetime \<Rightarrow>
          if dt_sub ready_by_datetime plug_in_datetime \<le> charge_timedelta then
            Inr [(plug_in_datetime, ready_by_datetime)]
          else
            (case charging_periods_of plug_in_datetime ready_by_datetime charge_timedelta
                    off_peak_start off_peak_end co2_measures of
               Inl e \<Rightarrow> Inl e
             | Inr charging_periods \<Rightarrow> Inr (simplify_periods charging_periods))))"

section \<open>Notions used to state the properties\<close>

text \<open>A time of day as \<^verbatim>\<open>parse_time\<close> gives it for a well-formed "HH:MM" string.\<close>

definition valid_time :: "int \<times> int \<Rightarrow> bool" where
  "valid_time t \<longleftrightarrow> 0 \<le> fst t \<and> fst t \<le> 23 \<and> 0 \<le> snd t \<and> snd t \<le> 59"


text \<open>The period of an entry of \<^verbatim>\<open>co2_forecasts\<close>.\<close>


definition fc_period :: "co2_forecast \<Rightarrow> period" where
  "fc_period co2 = (fc_from co2, fc_to co2)"

text \<open>Containment of one period in another, by their end points.\<close>

definition within :: "period \<Rightarrow> period \<Rightarrow> bool" where
  "within p q \<longleftrightarrow> utc_us (fst q) \<le> utc_us (fst p) \<and> utc_us (snd p) \<le> utc_us (snd q)"

text \<open>
  The greedy consumption as the specification words it: keep \<open>remaining\<close>; for each
  entry in order, while \<open>remaining\<close> is positive, take the whole entry and subtract its
  duration when the duration is below \<open>remaining\<close>, otherwise take the prefix of
  exactly \<open>remaining\<close> and stop.
\<close>

fun greedy_spec :: "timedelta \<Rightarrow> co2_forecast list \<Rightarrow> error + period list" where
  "greedy_spec remaining [] = Inr []"
| "greedy_spec remaining (entry # entries) =
     (if 0 < remaining then
        (if duration (fc_period entry) < remaining then
           (case greedy_spec (remaining - duration (fc_period entry)) entries of
              Inl e \<Rightarrow> Inl e
            | Inr taken \<Rightarrow> Inr (fc_period entry # taken))
         else
           (case dt_add (fc_from entry) remaining of
              Inl e \<Rightarrow> Inl e
            | Inr prefix_end \<Rightarrow> Inr [(fc_from entry, prefix_end)]))
      else Inr [])"

text \<open>
  The time points of a period, read as the half-open interval from its start to its
  end; a time point is a UTC instant in microseconds, the resolution of a datetime.
\<close>

definition points :: "period \<Rightarrow> int set" where
  "points p = {t. utc_us (fst p) \<le> t \<and> t < utc_us (snd p)}"

definition covered :: "period list \<Rightarrow> int set" where
  "covered ps = \<Union> (points ` set ps)"

definition pairwise_disjoint :: "period list \<Rightarrow> bool" where
  "pairwise_disjoint ps \<longleftrightarrow>
     (\<forall>i j. i < j \<and> j < length ps \<longrightarrow> points (ps ! i) \<inter> points (ps ! j) = {})"

text \<open>
  The branches of \<^verbatim>\<open>off_peak_and_peak_periods\<close> once the two occurrences \<open>s\<close> and
  \<open>e\<close> of the off-peak start and end are known, with the comparisons written on
  UTC instants.
\<close>

definition split_window ::
  "datetime \<Rightarrow> datetime \<Rightarrow> datetime \<Rightarrow> datetime \<Rightarrow> period list \<times> period list" where
  "split_window pi rb s e =
     (if utc_us s = utc_us e then ([], [(pi, rb)])
      else if utc_us s < utc_us e then
        (if utc_us s < utc_us rb then
           (if utc_us e < utc_us rb then ([(s, e)], [(pi, s), (e, rb)])
            else ([(s, rb)], [(pi, s)]))
         else ([], [(pi, rb)]))
      else
        (if utc_us s < utc_us rb then ([(pi, e), (s, rb)], [(e, s)])
         else (if utc_us e < utc_us rb then ([(pi, e)], [(e, rb)])
               else ([(pi, rb)], [(pi, rb)]))))"

text \<open>
  A reading touches a period when, shifted by the week, it ends exactly at the start
  of the period or starts exactly at its end.
\<close>

definition touches :: "co2_measure \<Rightarrow> period \<Rightarrow> bool" where
  "touches co2 p \<longleftrightarrow>
     utc_us (co2_to co2) + 604800000000 = utc_us (fst p) \<or>
     utc_us (co2_from co2) + 604800000000 = utc_us (snd p)"

text \<open>
  What \<^verbatim>\<open>schedule\<close> hands to \<^verbatim>\<open>optimize_co2\<close>: the off-peak periods and the
  whole charge time when they suffice, otherwise the peak periods and the charge time
  that the off-peak periods leave.
\<close>

definition allocation_request ::
  "period list \<Rightarrow> period list \<Rightarrow> timedelta \<Rightarrow> period list \<times> timedelta" where
  "allocation_request off peak charge_time =
     (if charge_time \<le> total_duration off then (off, charge_time)
      else (peak, charge_time - total_duration off))"

text \<open>
  Room before the end of the year 9999: a datetime on or after day 1 whose local time
  stays within the days Python can hold when \<open>k\<close> days are added, with an offset of
  less than a day. Every valid datetime whose day is at most \<open>MAXORDINAL - k\<close> has it.
\<close>

definition in_range :: "int \<Rightarrow> datetime \<Rightarrow> bool" where
  "in_range k d \<longleftrightarrow>
     86400000000 \<le> local_us d \<and> local_us d + k * 86400000000 < 315537984000000000 \<and>
     - 86400000000 < dt_utcoffset d \<and> dt_utcoffset d < 86400000000"

text \<open>
  The duration of the part of a reading, shifted by the week, that lies within a
  candidate period (nothing when they do not meet), and the sum of these durations over
  every reading and every candidate: the forecast time available to the allocator,
  stated on its inputs.
\<close>

definition overlap_duration :: "co2_measure \<Rightarrow> period \<Rightarrow> timedelta" where
  "overlap_duration co2 p =
     max 0 (min (utc_us (co2_to co2) + 604800000000) (utc_us (snd p))
            - max (utc_us (co2_from co2) + 604800000000) (utc_us (fst p)))"

definition forecast_cover :: "period list \<Rightarrow> co2_measure list \<Rightarrow> timedelta" where
  "forecast_cover periods co2_measures =
     sum_list (map (\<lambda>co2. sum_list (map (overlap_duration co2) periods)) co2_measures)"

section \<open>Datetime arithmetic\<close>


lemma local_us_expand:
  "local_us d = dt_ordinal d * 86400000000 + dt_hour d * 3600000000 + dt_minute d * 60000000
     + dt_second d * 1000000 + dt_microsecond d"
  by (simp add: local_us_def algebra_simps)

lemma local_us_of_local_us: "local_us (of_local_us n off) = n"
proof -
  have a: "n mod 86400000000 mod 3600000000 = n mod 3600000000"
    by (rule mod_mod_cancel) simp
  have b: "n mod 3600000000 mod 60000000 = n mod 60000000"
    by (rule mod_mod_cancel) simp
  have c: "n mod 60000000 mod 1000000 = n mod 1000000"
    by (rule mod_mod_cancel) simp
  have d1: "n div 86400000000 * 86400000000 + n mod 86400000000 = n" by simp
  have d2: "n mod 86400000000 div 3600000000 * 3600000000 + n mod 3600000000 = n mod 86400000000"
    using div_mult_mod_eq [of "n mod 86400000000" 3600000000] a by simp
  have d3: "n mod 3600000000 div 60000000 * 60000000 + n mod 60000000 = n mod 3600000000"
    using div_mult_mod_eq [of "n mod 3600000000" 60000000] b by simp
  have d4: "n mod 60000000 div 1000000 * 1000000 + n mod 1000000 = n mod 60000000"
    using div_mult_mod_eq [of "n mod 60000000" 1000000] c by simp
  have "local_us (of_local_us n off) =
      n div 86400000000 * 86400000000 + (n mod 86400000000 div 3600000000 * 3600000000 +
       (n mod 3600000000 div 60000000 * 60000000 + (n mod 60000000 div 1000000 * 1000000 + n mod 1000000)))"
    by (simp add: local_us_expand of_local_us_def)
  also have "\<dots> = n"
    by (simp only: d4 d3 d2 d1)
  finally show ?thesis .
qed

lemma utc_us_of_local_us: "utc_us (of_local_us n off) = n - off"
  by (simp add: utc_us_def local_us_of_local_us) (simp add: of_local_us_def)

lemma day_pos_iff: "0 < (n::int) div 86400000000 \<longleftrightarrow> 86400000000 \<le> n"
  by (simp add: pos_imp_zdiv_pos_iff)

lemma day_max_iff: "(n::int) div 86400000000 \<le> 3652059 \<longleftrightarrow> n < 315537984000000000"
proof -
  have "n = n div 86400000000 * 86400000000 + n mod 86400000000" by simp
  moreover have "0 \<le> n mod 86400000000" "n mod 86400000000 < 86400000000" by simp_all
  ultimately show ?thesis by linarith
qed

lemma dt_add_iff:
  "dt_add d td = Inr r \<longleftrightarrow>
     86400000000 \<le> local_us d + td \<and> local_us d + td < 315537984000000000 \<and>
     r = of_local_us (local_us d + td) (dt_utcoffset d)"
  by (auto simp: dt_add_def Let_def us_per_day_def MAXORDINAL_def day_pos_iff day_max_iff)

lemma dt_add_Inr:
  assumes "dt_add d td = Inr r"
  shows "utc_us r = utc_us d + td" and "dt_utcoffset r = dt_utcoffset d"
    and "local_us r = local_us d + td"
    and "86400000000 \<le> local_us r" and "local_us r < 315537984000000000"
proof -
  let ?n = "local_us d + td"
  from assms have r: "r = of_local_us ?n (dt_utcoffset d)"
    and rng: "86400000000 \<le> ?n" "?n < 315537984000000000"
    by (simp_all add: dt_add_iff)
  show "utc_us r = utc_us d + td" by (simp add: r utc_us_of_local_us) (simp add: utc_us_def)
  show "dt_utcoffset r = dt_utcoffset d" by (simp add: r of_local_us_def)
  show l: "local_us r = local_us d + td" by (simp add: r local_us_of_local_us)
  show "86400000000 \<le> local_us r" using rng(1) by (simp add: l)
  show "local_us r < 315537984000000000" using rng(2) by (simp add: l)
qed

lemma dt_add_ok:
  assumes "86400000000 \<le> local_us d + td" "local_us d + td < 315537984000000000"
  shows "\<exists>r. dt_add d td = Inr r"
  using assms by (simp add: dt_add_iff)

lemma valid_local_us:
  assumes "valid_datetime d"
  shows "dt_ordinal d * 86400000000 \<le> local_us d"
    and "local_us d < dt_ordinal d * 86400000000 + 86400000000"
    and "86400000000 \<le> local_us d" and "local_us d < 315537984000000000"
  using assms unfolding valid_datetime_def local_us_expand us_per_day_def MAXORDINAL_def by linarith+



lemma replace_hour_minute_iff:
  "replace_hour_minute d h m = Inr r \<longleftrightarrow> valid_time (h, m) \<and> r = d\<lparr>dt_hour := h, dt_minute := m\<rparr>"
  by (auto simp: replace_hour_minute_def valid_time_def)

lemma utc_us_replace:
  "utc_us (d\<lparr>dt_hour := h, dt_minute := m\<rparr>) =
     utc_us d + h * 3600000000 - dt_hour d * 3600000000 + m * 60000000 - dt_minute d * 60000000"
  by (simp add: utc_us_def local_us_expand algebra_simps)

lemma local_us_replace:
  "local_us (d\<lparr>dt_hour := h, dt_minute := m\<rparr>) =
     local_us d + h * 3600000000 - dt_hour d * 3600000000 + m * 60000000 - dt_minute d * 60000000"
  by (simp add: local_us_expand algebra_simps)

lemma next_datetime_with_time_Inr:
  assumes "next_datetime_with_time c t = Inr r" and "valid_datetime c"
  shows "utc_us c < utc_us r" and "utc_us r \<le> utc_us c + 86400000000"
    and "dt_utcoffset r = dt_utcoffset c" and "valid_time t"
proof -
  obtain h m where t: "t = (h, m)" by (cases t)
  let ?s = "c\<lparr>dt_hour := h, dt_minute := m\<rparr>"
  from assms(1) have vt: "valid_time (h, m)"
    by (auto simp: next_datetime_with_time_def t replace_hour_minute_iff split: sum.splits)
  then show "valid_time t" by (simp add: t)
  from assms(1) vt have r: "if utc_us ?s \<le> utc_us c then dt_add ?s 86400000000 = Inr r else r = ?s"
    by (auto simp: next_datetime_with_time_def t replace_hour_minute_def valid_time_def dt_le_def
        timedelta_days_def us_per_day_def split: if_splits)
  have b: "0 \<le> h" "h \<le> 23" "0 \<le> m" "m \<le> 59" using vt by (simp_all add: valid_time_def)
  have v: "0 \<le> dt_hour c" "dt_hour c \<le> 23" "0 \<le> dt_minute c" "dt_minute c \<le> 59"
    using assms(2) by (simp_all add: valid_datetime_def)
  have lo: "utc_us c - 86400000000 < utc_us ?s" and hi: "utc_us ?s < utc_us c + 86400000000"
    unfolding utc_us_replace using b v by linarith+
  show "utc_us c < utc_us r"
  proof (cases "utc_us ?s \<le> utc_us c")
    case True
    with r have "utc_us r = utc_us ?s + 86400000000" by (simp add: dt_add_Inr(1))
    with lo show ?thesis by simp
  next
    case False
    with r show ?thesis by simp
  qed
  show "utc_us r \<le> utc_us c + 86400000000"
  proof (cases "utc_us ?s \<le> utc_us c")
    case True
    with r have "utc_us r = utc_us ?s + 86400000000" by (simp add: dt_add_Inr(1))
    with True show ?thesis by simp
  next
    case False
    with r hi show ?thesis by simp
  qed
  show "dt_utcoffset r = dt_utcoffset c"
  proof (cases "utc_us ?s \<le> utc_us c")
    case True
    with r have "dt_utcoffset r = dt_utcoffset ?s" by (simp add: dt_add_Inr(2))
    then show ?thesis by simp
  next
    case False
    with r show ?thesis by simp
  qed
qed

lemma next_datetime_with_time_ok:
  assumes "valid_datetime c" and "valid_time t" and "dt_ordinal c < MAXORDINAL"
  shows "\<exists>r. next_datetime_with_time c t = Inr r"
proof -
  obtain h m where t: "t = (h, m)" by (cases t)
  let ?s = "c\<lparr>dt_hour := h, dt_minute := m\<rparr>"
  have b: "0 \<le> h" "h \<le> 23" "0 \<le> m" "m \<le> 59" using assms(2) by (simp_all add: valid_time_def t)
  have v: "1 \<le> dt_ordinal c" "dt_ordinal c \<le> 3652058" "0 \<le> dt_second c" "dt_second c \<le> 59"
      "0 \<le> dt_microsecond c" "dt_microsecond c \<le> 999999"
    using assms(1,3) by (simp_all add: valid_datetime_def MAXORDINAL_def)
  have "86400000000 \<le> local_us ?s + 86400000000" "local_us ?s + 86400000000 < 315537984000000000"
    unfolding local_us_expand using b v by simp_all
  then obtain r where "dt_add ?s 86400000000 = Inr r" using dt_add_ok by blast
  then show ?thesis
    using b by (simp add: next_datetime_with_time_def t replace_hour_minute_def
        timedelta_days_def us_per_day_def)
qed


section \<open>next_datetime_with_time\<close>

text \<open>
  C4. The claim is that \<^verbatim>\<open>next_datetime_with_time\<close> returns the earliest instant
  strictly after the reference whose time of day is the given one, and that for the
  reference 2019-10-04T18:42:12Z and the time 07:00 it returns 2019-10-05T07:00:00Z.
  \<^verbatim>\<open>replace(hour=..., minute=...)\<close> keeps the seconds and microseconds of the
  reference: on this input the function returns 2019-10-05T07:00:12Z, twelve seconds
  after the instant the claim names.
\<close>

theorem next_datetime_with_time_keeps_seconds:
  "next_datetime_with_time (utc_datetime 2019 10 4 18 42 12) (7, 0)
     = Inr (utc_datetime 2019 10 5 7 0 12) \<and>
   dt_sub (utc_datetime 2019 10 5 7 0 12) (utc_datetime 2019 10 5 7 0 0) = 12000000"
  by code_simp

text \<open>
  For a reference on a whole minute (no seconds, no microseconds) the function does
  return the earliest instant after the reference whose time of day is the given one:
  the local time of the result has that time of day, it is after the reference, and no
  local time after the reference with that time of day is earlier.
\<close>

lemma next_datetime_with_time_whole_minute:
  assumes r: "next_datetime_with_time c (h, m) = Inr r" and v: "valid_datetime c"
    and z: "dt_second c = 0" "dt_microsecond c = 0"
  shows "local_us r mod 86400000000 = h * 3600000000 + m * 60000000"
    and "utc_us c < utc_us r"
    and "\<And>n. local_us c < n \<Longrightarrow> n mod 86400000000 = h * 3600000000 + m * 60000000
           \<Longrightarrow> local_us r \<le> n"
proof -
  let ?s = "c\<lparr>dt_hour := h, dt_minute := m\<rparr>"
  let ?X = "h * 3600000000 + m * 60000000"
  let ?Y = "dt_hour c * 3600000000 + dt_minute c * 60000000"
  from next_datetime_with_time_Inr(4) [OF r v] have b: "0 \<le> h" "h \<le> 23" "0 \<le> m" "m \<le> 59"
    by (simp_all add: valid_time_def)
  then have X: "0 \<le> ?X" "?X < 86400000000" by simp_all
  from r b have c: "if utc_us ?s \<le> utc_us c then dt_add ?s 86400000000 = Inr r else r = ?s"
    by (auto simp: next_datetime_with_time_def replace_hour_minute_def dt_le_def
        timedelta_days_def us_per_day_def split: if_splits)
  have lc: "local_us c = dt_ordinal c * 86400000000 + ?Y" by (simp add: local_us_expand z)
  have ls: "local_us ?s = dt_ordinal c * 86400000000 + ?X" by (simp add: local_us_expand z)
  have cmp: "utc_us ?s \<le> utc_us c \<longleftrightarrow> ?X \<le> ?Y" by (simp add: utc_us_def lc ls)
  have lr: "local_us r = (if ?X \<le> ?Y then dt_ordinal c + 1 else dt_ordinal c) * 86400000000 + ?X"
  proof (cases "?X \<le> ?Y")
    case True
    with c cmp have "dt_add ?s 86400000000 = Inr r" by simp
    from dt_add_Inr(3) [OF this] True show ?thesis by (simp add: ls algebra_simps)
  next
    case False
    with c cmp have "r = ?s" by simp
    with False show ?thesis by (simp add: ls)
  qed
  show "utc_us c < utc_us r" by (rule next_datetime_with_time_Inr(1) [OF r v])
  have "local_us r mod 86400000000 = ?X mod 86400000000"
    unfolding lr by (simp only: mod_mult_self3)
  also have "\<dots> = ?X" using X by (simp only: mod_pos_pos_trivial)
  finally show "local_us r mod 86400000000 = ?X" .
  fix n :: int
  assume n: "local_us c < n" "n mod 86400000000 = ?X"
  have d: "n = n div 86400000000 * 86400000000 + n mod 86400000000" by simp
  have Y: "0 \<le> ?Y" using v by (simp add: valid_datetime_def)
  show "local_us r \<le> n"
  proof (cases "?X \<le> ?Y")
    case True
    have "dt_ordinal c < n div 86400000000"
    proof (rule ccontr)
      assume "\<not> dt_ordinal c < n div 86400000000"
      then have "n div 86400000000 * 86400000000 \<le> dt_ordinal c * 86400000000" by simp
      with d n True lc show False by linarith
    qed
    then have "(dt_ordinal c + 1) * 86400000000 \<le> n div 86400000000 * 86400000000" by simp
    with d n(2) True show ?thesis unfolding lr by simp
  next
    case False
    have "dt_ordinal c \<le> n div 86400000000"
    proof (rule ccontr)
      assume "\<not> dt_ordinal c \<le> n div 86400000000"
      then have "n div 86400000000 + 1 \<le> dt_ordinal c" by simp
      then have "(n div 86400000000 + 1) * 86400000000 \<le> dt_ordinal c * 86400000000"
        by (simp only: mult_right_mono)
      with d n X Y lc show False by (simp add: algebra_simps)
    qed
    then have "dt_ordinal c * 86400000000 \<le> n div 86400000000 * 86400000000" by simp
    with d n(2) False show ?thesis unfolding lr by simp
  qed
qed

section \<open>The allocation loop\<close>

lemma foldl_plus_sum_list: "foldl (+) a xs = (a::int) + sum_list xs"
  by (induction xs arbitrary: a) auto

lemma total_duration_sum: "total_duration ps = sum_list (map duration ps)"
  by (simp add: total_duration_def foldl_plus_sum_list)

lemma total_duration_simps:
  "total_duration [] = 0"
  "total_duration (p # ps) = duration p + total_duration ps"
  "total_duration (ps @ qs) = total_duration ps + total_duration qs"
  by (simp_all add: total_duration_sum)

lemma total_duration_mset: "mset ps = mset qs \<Longrightarrow> total_duration ps = total_duration qs"
proof -
  assume "mset ps = mset qs"
  then have "mset (map duration ps) = mset (map duration qs)" by (metis mset_map)
  then show ?thesis unfolding total_duration_sum by (metis sum_mset_sum_list)
qed

lemma total_duration_simplify: "total_duration (simplify_periods ps) = total_duration ps"
  by (rule total_duration_mset) (simp add: simplify_periods_def)

lemma total_duration_sort_key:
  "total_duration (map fc_period (sort_key f fs)) = total_duration (map fc_period fs)"
  by (rule total_duration_mset) simp

lemma duration_pair: "duration (a, b) = utc_us b - utc_us a"
  by (simp add: duration_def dt_sub_def)

lemma charge_loop_done: "r \<le> 0 \<Longrightarrow> charge_loop r acc es = Inr acc"
  by (cases es) simp_all

lemma charge_loop_greedy:
  "charge_loop r acc es = (case greedy_spec r es of Inl e \<Rightarrow> Inl e | Inr t \<Rightarrow> Inr (acc @ t))"
proof (induction es arbitrary: r acc)
  case Nil
  show ?case by simp
next
  case (Cons e es)
  show ?case
  proof (cases "0 < r")
    case False
    then show ?thesis by simp
  next
    case True
    show ?thesis
    proof (cases "duration (fc_period e) < r")
      case True
      with \<open>0 < r\<close> show ?thesis
        by (simp add: Cons.IH fc_period_def split: sum.splits)
    next
      case False
      then have "r - duration (fc_period e) \<le> 0" by simp
      with False \<open>0 < r\<close> show ?thesis
        by (simp add: charge_loop_done fc_period_def split: sum.splits)
    qed
  qed
qed

lemma greedy_total_le:
  "greedy_spec r es = Inr t \<Longrightarrow> 0 \<le> r \<Longrightarrow> total_duration t \<le> r"
proof (induction es arbitrary: r t)
  case Nil
  then show ?case by (simp add: total_duration_simps)
next
  case (Cons e es)
  show ?case
  proof (cases "0 < r")
    case False
    with Cons.prems show ?thesis by (simp add: total_duration_simps)
  next
    case pos: True
    show ?thesis
    proof (cases "duration (fc_period e) < r")
      case True
      with pos Cons.prems obtain t' where t': "greedy_spec (r - duration (fc_period e)) es = Inr t'"
        and t: "t = fc_period e # t'"
        by (auto split: sum.splits)
      from Cons.IH [OF t'] True have "total_duration t' \<le> r - duration (fc_period e)" by simp
      then show ?thesis by (simp add: t total_duration_simps)
    next
      case False
      with pos Cons.prems obtain pe where pe: "dt_add (fc_from e) r = Inr pe"
        and t: "t = [(fc_from e, pe)]"
        by (auto split: sum.splits)
      show ?thesis by (simp add: t total_duration_simps duration_pair dt_add_Inr(1) [OF pe])
    qed
  qed
qed

lemma greedy_total_eq:
  "greedy_spec r es = Inr t \<Longrightarrow> 0 \<le> r \<Longrightarrow> r \<le> total_duration (map fc_period es)
     \<Longrightarrow> total_duration t = r"
proof (induction es arbitrary: r t)
  case Nil
  then show ?case by (simp add: total_duration_simps)
next
  case (Cons e es)
  show ?case
  proof (cases "0 < r")
    case False
    with Cons.prems show ?thesis by (simp add: total_duration_simps)
  next
    case pos: True
    show ?thesis
    proof (cases "duration (fc_period e) < r")
      case True
      with pos Cons.prems obtain t' where t': "greedy_spec (r - duration (fc_period e)) es = Inr t'"
        and t: "t = fc_period e # t'"
        by (auto split: sum.splits)
      from Cons.prems(3) have "r - duration (fc_period e) \<le> total_duration (map fc_period es)"
        by (simp add: total_duration_simps)
      with Cons.IH [OF t'] True have "total_duration t' = r - duration (fc_period e)" by simp
      then show ?thesis by (simp add: t total_duration_simps)
    next
      case False
      with pos Cons.prems obtain pe where pe: "dt_add (fc_from e) r = Inr pe"
        and t: "t = [(fc_from e, pe)]"
        by (auto split: sum.splits)
      show ?thesis by (simp add: t total_duration_simps duration_pair dt_add_Inr(1) [OF pe])
    qed
  qed
qed

lemma total_duration_nonneg:
  "(\<And>p. p \<in> set ps \<Longrightarrow> 0 \<le> duration p) \<Longrightarrow> 0 \<le> total_duration ps"
  by (induction ps) (simp_all add: total_duration_simps)

lemma greedy_total_min:
  "greedy_spec r es = Inr t \<Longrightarrow> 0 \<le> r \<Longrightarrow> (\<And>e. e \<in> set es \<Longrightarrow> 0 \<le> duration (fc_period e))
     \<Longrightarrow> total_duration t = min r (total_duration (map fc_period es))"
proof (induction es arbitrary: r t)
  case Nil
  then show ?case by (simp add: total_duration_simps)
next
  case (Cons e es)
  have nn: "0 \<le> total_duration (map fc_period es)"
    by (rule total_duration_nonneg) (use Cons.prems(3) in auto)
  have ne: "0 \<le> duration (fc_period e)" using Cons.prems(3) by simp
  show ?case
  proof (cases "0 < r")
    case False
    with Cons.prems(1,2) nn ne show ?thesis by (simp add: total_duration_simps)
  next
    case pos: True
    show ?thesis
    proof (cases "duration (fc_period e) < r")
      case True
      with pos Cons.prems obtain t' where t': "greedy_spec (r - duration (fc_period e)) es = Inr t'"
        and t: "t = fc_period e # t'"
        by (auto split: sum.splits)
      have "total_duration t' = min (r - duration (fc_period e)) (total_duration (map fc_period es))"
        by (rule Cons.IH [OF t']) (use True Cons.prems(3) in auto)
      then show ?thesis by (simp add: t total_duration_simps)
    next
      case False
      with pos Cons.prems obtain pe where pe: "dt_add (fc_from e) r = Inr pe"
        and t: "t = [(fc_from e, pe)]"
        by (auto split: sum.splits)
      show ?thesis using False nn
        by (simp add: t total_duration_simps duration_pair dt_add_Inr(1) [OF pe])
    qed
  qed
qed

section \<open>The aligned forecasts and the periods taken from them\<close>

lemma utc_us_dt_max: "utc_us (dt_max a b) = max (utc_us a) (utc_us b)"
  by (simp add: dt_max_def dt_lt_def)

lemma utc_us_dt_min: "utc_us (dt_min a b) = min (utc_us a) (utc_us b)"
  by (simp add: dt_min_def dt_lt_def)

lemma collect_mem:
  "collect f xs = Inr ys \<Longrightarrow> y \<in> set ys \<Longrightarrow> \<exists>x\<in>set xs. \<exists>zs. f x = Inr zs \<and> y \<in> set zs"
  by (induction xs arbitrary: ys) (auto split: sum.splits)

lemma collect_Nil_iff: "collect f [] = Inr ys \<longleftrightarrow> ys = []"
  by auto

lemma collect_ok:
  "(\<And>x. x \<in> set xs \<Longrightarrow> \<exists>zs. f x = Inr zs) \<Longrightarrow> \<exists>ys. collect f xs = Inr ys"
proof (induction xs)
  case Nil
  show ?case by simp
next
  case (Cons x xs)
  obtain zs where "f x = Inr zs" using Cons.prems by auto
  moreover obtain ys where "collect f xs = Inr ys" using Cons by auto
  ultimately show ?case by simp
qed

lemma clip_forecast_mem:
  assumes "clip_forecast m p = Inr zs" and "e \<in> set zs"
  shows "\<exists>sf st. dt_add (co2_from m) 604800000000 = Inr sf \<and>
           dt_add (co2_to m) 604800000000 = Inr st \<and>
           utc_us sf \<le> utc_us (snd p) \<and> utc_us (fst p) \<le> utc_us st \<and>
           e = \<lparr>fc_from = dt_max sf (fst p), fc_to = dt_min st (snd p),
                fc_forecast = co2_intensity m\<rparr>"
  using assms
  by (cases p)
    (auto simp: clip_forecast_def shift_to_forecast_def timedelta_weeks_def us_per_day_def
      dt_le_def split: sum.splits if_splits)

lemma clip_forecast_entry:
  assumes "clip_forecast m p = Inr zs" and "e \<in> set zs"
  shows "utc_us (fc_from e) = max (utc_us (co2_from m) + 604800000000) (utc_us (fst p))"
    and "utc_us (fc_to e) = min (utc_us (co2_to m) + 604800000000) (utc_us (snd p))"
    and "utc_us (co2_from m) + 604800000000 \<le> utc_us (snd p)"
    and "utc_us (fst p) \<le> utc_us (co2_to m) + 604800000000"
    and "fc_forecast e = co2_intensity m"
proof -
  from clip_forecast_mem [OF assms] obtain sf st where
    sf: "dt_add (co2_from m) 604800000000 = Inr sf" and
    st: "dt_add (co2_to m) 604800000000 = Inr st" and
    c: "utc_us sf \<le> utc_us (snd p)" "utc_us (fst p) \<le> utc_us st" and
    e: "e = \<lparr>fc_from = dt_max sf (fst p), fc_to = dt_min st (snd p),
                fc_forecast = co2_intensity m\<rparr>"
    by blast
  note u = dt_add_Inr(1) [OF sf] dt_add_Inr(1) [OF st]
  show "utc_us (fc_from e) = max (utc_us (co2_from m) + 604800000000) (utc_us (fst p))"
    by (simp add: e utc_us_dt_max u)
  show "utc_us (fc_to e) = min (utc_us (co2_to m) + 604800000000) (utc_us (snd p))"
    by (simp add: e utc_us_dt_min u)
  show "utc_us (co2_from m) + 604800000000 \<le> utc_us (snd p)" using c(1) by (simp add: u)
  show "utc_us (fst p) \<le> utc_us (co2_to m) + 604800000000" using c(2) by (simp add: u)
  show "fc_forecast e = co2_intensity m" by (simp add: e)
qed

lemma co2_forecasts_mem:
  assumes "co2_forecasts ps ms = Inr fs" and "e \<in> set fs"
  shows "\<exists>m\<in>set ms. \<exists>p\<in>set ps. \<exists>zs. clip_forecast m p = Inr zs \<and> e \<in> set zs"
proof -
  from collect_mem [OF assms [unfolded co2_forecasts_def]]
  obtain m ys where m: "m \<in> set ms" and ys: "collect (clip_forecast m) ps = Inr ys" "e \<in> set ys"
    by auto
  from collect_mem [OF ys] m show ?thesis by blast
qed

lemma co2_forecasts_within:
  assumes "co2_forecasts ps ms = Inr fs" and "e \<in> set fs"
  shows "\<exists>p\<in>set ps. within (fc_period e) p"
proof -
  from co2_forecasts_mem [OF assms] obtain m p zs where
    p: "p \<in> set ps" and z: "clip_forecast m p = Inr zs" "e \<in> set zs" by blast
  have "within (fc_period e) p"
    by (simp add: within_def fc_period_def clip_forecast_entry(1,2) [OF z])
  with p show ?thesis by blast
qed

lemma co2_forecasts_nonneg:
  assumes "co2_forecasts ps ms = Inr fs" and "e \<in> set fs"
    and "\<And>p. p \<in> set ps \<Longrightarrow> utc_us (fst p) \<le> utc_us (snd p)"
    and "\<And>m. m \<in> set ms \<Longrightarrow> utc_us (co2_from m) \<le> utc_us (co2_to m)"
  shows "0 \<le> duration (fc_period e)"
proof -
  from co2_forecasts_mem [OF assms(1,2)] obtain m p zs where
    m: "m \<in> set ms" and p: "p \<in> set ps" and z: "clip_forecast m p = Inr zs" "e \<in> set zs" by blast
  note f = clip_forecast_entry [OF z]
  from assms(3) [OF p] assms(4) [OF m] f(3,4) show ?thesis
    by (simp add: fc_period_def duration_pair f(1,2))
qed

lemma co2_forecasts_Nil: "co2_forecasts ps [] = Inr []"
  by (simp add: co2_forecasts_def)

lemma greedy_taken:
  "greedy_spec r es = Inr t \<Longrightarrow> p \<in> set t \<Longrightarrow>
     \<exists>e\<in>set es. fst p = fc_from e \<and> utc_us (snd p) \<le> utc_us (fc_to e) \<and>
        (p = fc_period e \<or> utc_us (fst p) < utc_us (snd p))"
proof (induction es arbitrary: r t)
  case Nil
  then show ?case by simp
next
  case (Cons e es)
  show ?case
  proof (cases "0 < r")
    case False
    with Cons.prems show ?thesis by simp
  next
    case pos: True
    show ?thesis
    proof (cases "duration (fc_period e) < r")
      case True
      with pos Cons.prems(1) obtain t' where t': "greedy_spec (r - duration (fc_period e)) es = Inr t'"
        and t: "t = fc_period e # t'"
        by (auto split: sum.splits)
      show ?thesis
      proof (cases "p = fc_period e")
        case True
        then show ?thesis by (simp add: fc_period_def)
      next
        case False
        with Cons.prems(2) t have "p \<in> set t'" by simp
        from Cons.IH [OF t' this] show ?thesis by auto
      qed
    next
      case False
      with pos Cons.prems(1) obtain pe where pe: "dt_add (fc_from e) r = Inr pe"
        and t: "t = [(fc_from e, pe)]"
        by (auto split: sum.splits)
      from Cons.prems(2) t have p: "p = (fc_from e, pe)" by simp
      from False have "r \<le> utc_us (fc_to e) - utc_us (fc_from e)"
        by (simp add: fc_period_def duration_pair)
      with pos show ?thesis by (simp add: p dt_add_Inr(1) [OF pe])
    qed
  qed
qed

lemma greedy_shape:
  "greedy_spec r es = Inr t \<Longrightarrow>
     length t \<le> length es \<and> (\<forall>j. Suc j < length t \<longrightarrow> t ! j = fc_period (es ! j))"
proof (induction es arbitrary: r t)
  case Nil
  then show ?case by simp
next
  case (Cons e es)
  show ?case
  proof (cases "0 < r \<and> duration (fc_period e) < r")
    case True
    with Cons.prems obtain t' where t': "greedy_spec (r - duration (fc_period e)) es = Inr t'"
      and t: "t = fc_period e # t'"
      by (auto split: sum.splits)
    from Cons.IH [OF t'] have ih: "length t' \<le> length es"
      "\<And>j. Suc j < length t' \<Longrightarrow> t' ! j = fc_period (es ! j)" by auto
    show ?thesis
    proof (intro conjI allI impI)
      show "length t \<le> length (e # es)" using ih(1) by (simp add: t)
    next
      fix j assume "Suc j < length t"
      then show "t ! j = fc_period ((e # es) ! j)"
        using ih(2) by (cases j) (simp_all add: t)
    qed
  next
    case False
    with Cons.prems have "length t \<le> 1" by (auto split: sum.splits if_splits)
    then show ?thesis by auto
  qed
qed

lemma optimize_co2_cases:
  assumes "optimize_co2 ps r ms = Inr out"
  shows "(total_duration ps \<le> r \<and> out = ps) \<or>
         (r < total_duration ps \<and>
          (\<exists>fs t. co2_forecasts ps ms = Inr fs \<and>
             greedy_spec r (sort_key fc_forecast fs) = Inr t \<and> out = simplify_periods t))"
  using assms
  by (auto simp: optimize_co2_def charge_loop_greedy split: if_splits sum.splits)

lemma greedy_nth:
  "greedy_spec r es = Inr t \<Longrightarrow> j < length t \<Longrightarrow>
     fst (t ! j) = fc_from (es ! j) \<and> utc_us (snd (t ! j)) \<le> utc_us (fc_to (es ! j))"
proof (induction es arbitrary: r t j)
  case Nil
  then show ?case by simp
next
  case (Cons e es)
  show ?case
  proof (cases "0 < r")
    case False
    with Cons.prems show ?thesis by simp
  next
    case pos: True
    show ?thesis
    proof (cases "duration (fc_period e) < r")
      case True
      with pos Cons.prems(1) obtain t' where t': "greedy_spec (r - duration (fc_period e)) es = Inr t'"
        and t: "t = fc_period e # t'"
        by (auto split: sum.splits)
      show ?thesis
      proof (cases j)
        case 0
        then show ?thesis by (simp add: t fc_period_def)
      next
        case (Suc k)
        with Cons.prems(2) t have "k < length t'" by simp
        from Cons.IH [OF t' this] show ?thesis by (simp add: t Suc)
      qed
    next
      case False
      with pos Cons.prems(1) obtain pe where pe: "dt_add (fc_from e) r = Inr pe"
        and t: "t = [(fc_from e, pe)]"
        by (auto split: sum.splits)
      from Cons.prems(2) t have j: "j = 0" by simp
      from False have "r \<le> utc_us (fc_to e) - utc_us (fc_from e)"
        by (simp add: fc_period_def duration_pair)
      then show ?thesis by (simp add: t j dt_add_Inr(1) [OF pe])
    qed
  qed
qed

lemma clip_forecast_total:
  assumes "clip_forecast m p = Inr zs" and "utc_us (fst p) \<le> utc_us (snd p)"
    and "utc_us (co2_from m) \<le> utc_us (co2_to m)"
  shows "total_duration (map fc_period zs) = overlap_duration m p"
proof -
  obtain pf pt where p: "p = (pf, pt)" by (cases p)
  note d = clip_forecast_def p shift_to_forecast_def timedelta_weeks_def us_per_day_def dt_le_def
  from assms(1) obtain sf where sf: "dt_add (co2_from m) 604800000000 = Inr sf"
    by (cases "dt_add (co2_from m) 604800000000") (simp_all add: d)
  note usf = dt_add_Inr(1) [OF sf]
  show ?thesis
  proof (cases "utc_us sf \<le> utc_us pt")
    case False
    with assms(1) sf have "zs = []" by (simp add: d)
    with False usf show ?thesis
      by (simp add: overlap_duration_def p total_duration_simps)
  next
    case True
    with assms(1) sf obtain st where st: "dt_add (co2_to m) 604800000000 = Inr st"
      by (cases "dt_add (co2_to m) 604800000000") (simp_all add: d)
    note ust = dt_add_Inr(1) [OF st]
    show ?thesis
    proof (cases "utc_us pf \<le> utc_us st")
      case False
      with assms(1) sf st True have "zs = []" by (simp add: d)
      with False ust show ?thesis
        by (simp add: overlap_duration_def p total_duration_simps)
    next
      case meet: True
      with assms(1) sf st True have
        "zs = [\<lparr>fc_from = dt_max sf pf, fc_to = dt_min st pt, fc_forecast = co2_intensity m\<rparr>]"
        by (simp add: d)
      with True meet assms(2,3) usf ust show ?thesis
        by (simp add: overlap_duration_def p total_duration_simps fc_period_def duration_pair
            utc_us_dt_max utc_us_dt_min)
    qed
  qed
qed

lemma collect_total:
  assumes "collect f xs = Inr ys"
    and "\<And>x zs. x \<in> set xs \<Longrightarrow> f x = Inr zs \<Longrightarrow> total_duration (map fc_period zs) = h x"
  shows "total_duration (map fc_period ys) = sum_list (map h xs)"
  using assms
proof (induction xs arbitrary: ys)
  case Nil
  then show ?case by (simp add: total_duration_simps)
next
  case (Cons x xs)
  from Cons.prems(1) obtain zs where z: "f x = Inr zs"
    by (cases "f x") simp_all
  from Cons.prems(1) z obtain ws where w: "collect f xs = Inr ws" and y: "ys = zs @ ws"
    by (cases "collect f xs") auto
  have "total_duration (map fc_period ws) = sum_list (map h xs)"
    by (rule Cons.IH [OF w]) (use Cons.prems(2) in auto)
  moreover have "total_duration (map fc_period zs) = h x"
    by (rule Cons.prems(2) [OF _ z]) simp
  ultimately show ?case by (simp add: y total_duration_simps)
qed

lemma co2_forecasts_total:
  assumes "co2_forecasts ps ms = Inr fs"
    and "\<And>p. p \<in> set ps \<Longrightarrow> utc_us (fst p) \<le> utc_us (snd p)"
    and "\<And>m. m \<in> set ms \<Longrightarrow> utc_us (co2_from m) \<le> utc_us (co2_to m)"
  shows "total_duration (map fc_period fs) = forecast_cover ps ms"
  unfolding forecast_cover_def
proof (rule collect_total [OF assms(1) [unfolded co2_forecasts_def]])
  fix m zs
  assume m: "m \<in> set ms" and z: "collect (clip_forecast m) ps = Inr zs"
  show "total_duration (map fc_period zs) = sum_list (map (overlap_duration m) ps)"
  proof (rule collect_total [OF z])
    fix p ws
    assume "p \<in> set ps" "clip_forecast m p = Inr ws"
    then show "total_duration (map fc_period ws) = overlap_duration m p"
      using assms(2) [of p] assms(3) [OF m] by (intro clip_forecast_total) simp_all
  qed
qed

section \<open>The partition of the charging window\<close>

lemma off_peak_and_peak_periods_Inr:
  assumes "off_peak_and_peak_periods pi rb ops ope = Inr (off, peak)" and "valid_datetime pi"
  obtains s e where
    "next_datetime_with_time pi ops = Inr s" and "next_datetime_with_time pi ope = Inr e"
    and "utc_us pi < utc_us s" and "utc_us pi < utc_us e"
    and "(off, peak) = split_window pi rb s e"
proof -
  from assms(1) obtain s e where s: "next_datetime_with_time pi ops = Inr s"
    and e: "next_datetime_with_time pi ope = Inr e"
    by (auto simp: off_peak_and_peak_periods_def split: sum.splits)
  from assms(1) have "(off, peak) = split_window pi rb s e"
    unfolding off_peak_and_peak_periods_def split_window_def s e dt_eq_def dt_lt_def by simp
  with that [OF s e next_datetime_with_time_Inr(1) [OF s assms(2)]
      next_datetime_with_time_Inr(1) [OF e assms(2)]]
  show thesis by blast
qed

lemma off_peak_and_peak_periods_ok:
  assumes "next_datetime_with_time pi ops = Inr s" and "next_datetime_with_time pi ope = Inr e"
  shows "off_peak_and_peak_periods pi rb ops ope = Inr (split_window pi rb s e)"
  unfolding off_peak_and_peak_periods_def split_window_def assms dt_eq_def dt_lt_def by simp

lemma split_window_within:
  assumes "(off, peak) = split_window pi rb s e" and "utc_us pi < utc_us s"
    and "utc_us pi < utc_us e" and "p \<in> set off \<or> p \<in> set peak"
  shows "within p (pi, rb)"
  using assms by (auto simp: split_window_def within_def split: if_splits)

lemma split_window_strict:
  assumes "(off, peak) = split_window pi rb s e" and "utc_us pi < utc_us s"
    and "utc_us pi < utc_us e" and "utc_us pi < utc_us rb" and "p \<in> set off \<or> p \<in> set peak"
  shows "utc_us (fst p) < utc_us (snd p)"
  using assms by (auto simp: split_window_def split: if_splits)

lemma pairwise_disjoint_Nil: "pairwise_disjoint []"
  by (simp add: pairwise_disjoint_def)

lemma pairwise_disjoint_Cons:
  "pairwise_disjoint (p # ps) \<longleftrightarrow>
     (\<forall>q\<in>set ps. points p \<inter> points q = {}) \<and> pairwise_disjoint ps"
proof
  assume a: "pairwise_disjoint (p # ps)"
  show "(\<forall>q\<in>set ps. points p \<inter> points q = {}) \<and> pairwise_disjoint ps"
  proof
    show "\<forall>q\<in>set ps. points p \<inter> points q = {}"
    proof
      fix q assume "q \<in> set ps"
      then obtain k where k: "k < length ps" "ps ! k = q" by (auto simp: in_set_conv_nth)
      from a have "points ((p # ps) ! 0) \<inter> points ((p # ps) ! Suc k) = {}"
        unfolding pairwise_disjoint_def using k(1) by (metis Suc_less_eq length_Cons zero_less_Suc)
      with k show "points p \<inter> points q = {}" by simp
    qed
    show "pairwise_disjoint ps"
      unfolding pairwise_disjoint_def
    proof (intro allI impI)
      fix i j assume "i < j \<and> j < length ps"
      then have "Suc i < Suc j \<and> Suc j < length (p # ps)" by simp
      with a have "points ((p # ps) ! Suc i) \<inter> points ((p # ps) ! Suc j) = {}"
        unfolding pairwise_disjoint_def by blast
      then show "points (ps ! i) \<inter> points (ps ! j) = {}" by simp
    qed
  qed
next
  assume a: "(\<forall>q\<in>set ps. points p \<inter> points q = {}) \<and> pairwise_disjoint ps"
  show "pairwise_disjoint (p # ps)"
    unfolding pairwise_disjoint_def
  proof (intro allI impI)
    fix i j assume ij: "i < j \<and> j < length (p # ps)"
    then obtain j' where j': "j = Suc j'" "j' < length ps" by (cases j) auto
    show "points ((p # ps) ! i) \<inter> points ((p # ps) ! j) = {}"
    proof (cases i)
      case 0
      with a j' show ?thesis by simp
    next
      case (Suc i')
      with ij j' have "i' < j' \<and> j' < length ps" by simp
      with a have "points (ps ! i') \<inter> points (ps ! j') = {}"
        unfolding pairwise_disjoint_def by blast
      with Suc j' show ?thesis by simp
    qed
  qed
qed

lemma split_window_total:
  assumes "(off, peak) = split_window pi rb s e" and "utc_us pi < utc_us s"
    and "utc_us pi < utc_us e" and "utc_us pi < utc_us rb"
  shows "total_duration off \<le> utc_us rb - utc_us pi"
    and "utc_us rb - utc_us pi \<le> total_duration off \<Longrightarrow> off = [(pi, rb)]"
    and "total_duration off < utc_us rb - utc_us pi \<Longrightarrow>
           total_duration off + total_duration peak = utc_us rb - utc_us pi"
  using assms
  by (auto simp: split_window_def total_duration_simps duration_pair split: if_splits)

lemma split_window_partition:
  assumes "(off, peak) = split_window pi rb s e" and "utc_us pi < utc_us s"
    and "utc_us pi < utc_us e" and "utc_us pi < utc_us rb"
    and "\<not> (utc_us e < utc_us s \<and> utc_us rb \<le> utc_us e)"
  shows "pairwise_disjoint (off @ peak)"
    and "covered (off @ peak) = {utc_us pi ..< utc_us rb}"
  using assms
  by (auto simp: split_window_def pairwise_disjoint_Cons pairwise_disjoint_Nil covered_def
      points_def split: if_splits)

lemma split_window_wrapped:
  assumes "(off, peak) = split_window pi rb s e"
    and "utc_us e < utc_us s \<and> utc_us rb \<le> utc_us e"
  shows "off = [(pi, rb)]" and "peak = [(pi, rb)]"
  using assms by (auto simp: split_window_def split: if_splits)

lemma pairwise_disjoint_append:
  "pairwise_disjoint (xs @ ys) \<Longrightarrow> x \<in> set xs \<Longrightarrow> y \<in> set ys \<Longrightarrow> points x \<inter> points y = {}"
  by (induction xs) (auto simp: pairwise_disjoint_Cons)

lemma split_window_all_off:
  assumes "(off, peak) = split_window pi rb s e" and "utc_us pi < utc_us s"
    and "utc_us pi < utc_us e" and "off = [(pi, rb)]"
  shows "peak = off"
  using assms by (auto simp: split_window_def split: if_splits)

lemma split_window_off_peak_disjoint:
  assumes "(off, peak) = split_window pi rb s e" and "utc_us pi < utc_us s"
    and "utc_us pi < utc_us e" and "utc_us pi < utc_us rb" and "off \<noteq> peak"
    and "x \<in> set off" and "y \<in> set peak"
  shows "points x \<inter> points y = {}"
proof -
  from assms(1,5) have "\<not> (utc_us e < utc_us s \<and> utc_us rb \<le> utc_us e)"
    by (auto simp: split_window_def split: if_splits)
  from split_window_partition(1) [OF assms(1-4) this] assms(6,7) show ?thesis
    by (rule pairwise_disjoint_append)
qed

text \<open>
  C2. The claim is that, for every plug-in instant, every later ready-by instant and
  every off-peak window, the off-peak and peak lists are pairwise non-overlapping and
  cover exactly the time points from plug-in to ready-by. It fails in the last branch
  of the function, where the window ends before the next off-peak end and that end
  comes before the next off-peak start: both lists are then the whole window. With
  plug-in at 01:00, ready-by at 05:00 the same day and the off-peak window from 22:00
  to 06:00, both lists are the period from 01:00 to 05:00.
\<close>

theorem off_peak_and_peak_periods_overlap:
  "utc_us (utc_datetime 2019 10 4 1 0 0) < utc_us (utc_datetime 2019 10 4 5 0 0) \<and>
   off_peak_and_peak_periods (utc_datetime 2019 10 4 1 0 0) (utc_datetime 2019 10 4 5 0 0)
       (22, 0) (6, 0)
     = Inr ([(utc_datetime 2019 10 4 1 0 0, utc_datetime 2019 10 4 5 0 0)],
            [(utc_datetime 2019 10 4 1 0 0, utc_datetime 2019 10 4 5 0 0)]) \<and>
   \<not> pairwise_disjoint
     ([(utc_datetime 2019 10 4 1 0 0, utc_datetime 2019 10 4 5 0 0)] @
      [(utc_datetime 2019 10 4 1 0 0, utc_datetime 2019 10 4 5 0 0)])"
proof -
  have a: "utc_us (utc_datetime 2019 10 4 1 0 0) < utc_us (utc_datetime 2019 10 4 5 0 0)"
    by code_simp
  have b: "off_peak_and_peak_periods (utc_datetime 2019 10 4 1 0 0) (utc_datetime 2019 10 4 5 0 0)
       (22, 0) (6, 0)
     = Inr ([(utc_datetime 2019 10 4 1 0 0, utc_datetime 2019 10 4 5 0 0)],
            [(utc_datetime 2019 10 4 1 0 0, utc_datetime 2019 10 4 5 0 0)])"
    by code_simp
  have "utc_us (utc_datetime 2019 10 4 1 0 0) \<in>
      points (utc_datetime 2019 10 4 1 0 0, utc_datetime 2019 10 4 5 0 0)"
    using a by (simp add: points_def)
  then have c: "\<not> pairwise_disjoint
     ([(utc_datetime 2019 10 4 1 0 0, utc_datetime 2019 10 4 5 0 0)] @
      [(utc_datetime 2019 10 4 1 0 0, utc_datetime 2019 10 4 5 0 0)])"
    by (auto simp: pairwise_disjoint_Cons)
  from a b c show ?thesis by blast
qed

text \<open>
  C2, as amended: for a plug-in datetime before the last day Python can hold, two
  well-formed times of day and a ready-by instant after the plug-in, the function
  returns; outside the branch above the two lists are pairwise non-overlapping and
  cover exactly the time points from plug-in to ready-by, and in that branch both lists
  are the single period from plug-in to ready-by.
\<close>

theorem off_peak_and_peak_periods_partition:
  assumes "valid_datetime plug_in" and "dt_ordinal plug_in < MAXORDINAL"
    and "valid_time off_peak_start" and "valid_time off_peak_end"
    and "utc_us plug_in < utc_us ready_by"
  shows "\<exists>s e off peak.
      next_datetime_with_time plug_in off_peak_start = Inr s \<and>
      next_datetime_with_time plug_in off_peak_end = Inr e \<and>
      off_peak_and_peak_periods plug_in ready_by off_peak_start off_peak_end = Inr (off, peak) \<and>
      (if utc_us e < utc_us s \<and> utc_us ready_by \<le> utc_us e
       then off = [(plug_in, ready_by)] \<and> peak = [(plug_in, ready_by)]
       else pairwise_disjoint (off @ peak) \<and>
            covered (off @ peak) = {utc_us plug_in ..< utc_us ready_by})"
proof -
  obtain s where s: "next_datetime_with_time plug_in off_peak_start = Inr s"
    using next_datetime_with_time_ok [OF assms(1,3,2)] by blast
  obtain e where e: "next_datetime_with_time plug_in off_peak_end = Inr e"
    using next_datetime_with_time_ok [OF assms(1,4,2)] by blast
  obtain off peak where r: "(off, peak) = split_window plug_in ready_by s e"
    by (metis surj_pair)
  have ps: "utc_us plug_in < utc_us s" by (rule next_datetime_with_time_Inr(1) [OF s assms(1)])
  have pe: "utc_us plug_in < utc_us e" by (rule next_datetime_with_time_Inr(1) [OF e assms(1)])
  have "off_peak_and_peak_periods plug_in ready_by off_peak_start off_peak_end = Inr (off, peak)"
    by (simp add: off_peak_and_peak_periods_ok [OF s e] r)
  moreover have "off = [(plug_in, ready_by)] \<and> peak = [(plug_in, ready_by)]"
    if "utc_us e < utc_us s \<and> utc_us ready_by \<le> utc_us e"
    using split_window_wrapped [OF r that] by simp
  moreover have "pairwise_disjoint (off @ peak) \<and>
      covered (off @ peak) = {utc_us plug_in ..< utc_us ready_by}"
    if "\<not> (utc_us e < utc_us s \<and> utc_us ready_by \<le> utc_us e)"
    using split_window_partition [OF r ps pe assms(5) that] by simp
  ultimately show ?thesis using s e by (cases "utc_us e < utc_us s \<and> utc_us ready_by \<le> utc_us e") auto
qed

lemma next_0030_example: "next_datetime_with_time (utc_datetime 2019 10 4 18 42 12) (0, 30) = Inr (utc_datetime 2019 10 5 0 30 12)"
  by code_simp
lemma next_0730_example: "next_datetime_with_time (utc_datetime 2019 10 4 18 42 12) (7, 30) = Inr (utc_datetime 2019 10 5 7 30 12)"
  by code_simp

theorem off_peak_and_peak_periods_partition_witness:
  "off_peak_and_peak_periods (utc_datetime 2019 10 4 18 42 12) (utc_datetime 2019 10 5 7 0 12)
       (0, 30) (7, 30)
     = Inr ([(utc_datetime 2019 10 5 0 30 12, utc_datetime 2019 10 5 7 0 12)],
            [(utc_datetime 2019 10 4 18 42 12, utc_datetime 2019 10 5 0 30 12)]) \<and>
   pairwise_disjoint
     ([(utc_datetime 2019 10 5 0 30 12, utc_datetime 2019 10 5 7 0 12)] @
      [(utc_datetime 2019 10 4 18 42 12, utc_datetime 2019 10 5 0 30 12)]) \<and>
   covered
     ([(utc_datetime 2019 10 5 0 30 12, utc_datetime 2019 10 5 7 0 12)] @
      [(utc_datetime 2019 10 4 18 42 12, utc_datetime 2019 10 5 0 30 12)])
     = {utc_us (utc_datetime 2019 10 4 18 42 12) ..< utc_us (utc_datetime 2019 10 5 7 0 12)}"
proof -
  have h1: "valid_datetime (utc_datetime 2019 10 4 18 42 12)" by code_simp
  have h2: "dt_ordinal (utc_datetime 2019 10 4 18 42 12) < MAXORDINAL" by code_simp
  have h3: "valid_time (0, 30)" "valid_time (7, 30)" by code_simp+
  have h4: "utc_us (utc_datetime 2019 10 4 18 42 12) < utc_us (utc_datetime 2019 10 5 7 0 12)"
    by code_simp
  have r: "off_peak_and_peak_periods (utc_datetime 2019 10 4 18 42 12) (utc_datetime 2019 10 5 7 0 12)
       (0, 30) (7, 30)
     = Inr ([(utc_datetime 2019 10 5 0 30 12, utc_datetime 2019 10 5 7 0 12)],
            [(utc_datetime 2019 10 4 18 42 12, utc_datetime 2019 10 5 0 30 12)])"
    by code_simp
  have c: "\<not> (utc_us (utc_datetime 2019 10 5 7 30 12) < utc_us (utc_datetime 2019 10 5 0 30 12) \<and>
      utc_us (utc_datetime 2019 10 5 7 0 12) \<le> utc_us (utc_datetime 2019 10 5 7 30 12))"
    by code_simp
  from off_peak_and_peak_periods_partition [OF h1 h2 h3 h4] r c show ?thesis
    by (simp add: next_0030_example next_0730_example)
qed

section \<open>The total duration of the allocation\<close>

lemma optimize_co2_total_le:
  assumes "optimize_co2 ps r ms = Inr out" and "0 \<le> r"
  shows "total_duration out \<le> r"
proof -
  from optimize_co2_cases [OF assms(1)] show ?thesis
  proof (elim disjE conjE exE)
    assume "total_duration ps \<le> r" "out = ps"
    then show ?thesis by simp
  next
    fix fs t
    assume "greedy_spec r (sort_key fc_forecast fs) = Inr t" and "out = simplify_periods t"
    then show ?thesis using greedy_total_le [of r _ t] assms(2)
      by (simp add: total_duration_simplify)
  qed
qed

lemma optimize_co2_total_eq:
  assumes "optimize_co2 ps r ms = Inr out" and "0 \<le> r"
    and "co2_forecasts ps ms = Inr fs" and "r \<le> total_duration (map fc_period fs)"
    and "r \<le> total_duration ps"
  shows "total_duration out = r"
proof -
  from optimize_co2_cases [OF assms(1)] show ?thesis
  proof (elim disjE conjE exE)
    assume "total_duration ps \<le> r" "out = ps"
    with assms(5) show ?thesis by simp
  next
    fix fs' t
    assume "co2_forecasts ps ms = Inr fs'"
      and t: "greedy_spec r (sort_key fc_forecast fs') = Inr t" and out: "out = simplify_periods t"
    with assms(3) have t': "greedy_spec r (sort_key fc_forecast fs) = Inr t" by simp
    from greedy_total_eq [OF t' assms(2)] assms(4) show ?thesis
      by (simp add: out total_duration_simplify total_duration_sort_key)
  qed
qed

text \<open>
  C3. The claim is that the periods \<^verbatim>\<open>optimize_co2\<close> returns total at most the
  required duration, and exactly the required duration whenever the candidates total
  at least that much, even with an empty forecast series. The second part fails: the
  periods are taken from the forecast entries only, so with no reading the result is
  empty. One candidate of 60 minutes, 30 minutes required and no reading give the empty
  list.
\<close>

theorem optimize_co2_empty_forecasts:
  "optimize_co2 [(utc_datetime 2019 10 5 0 30 0, utc_datetime 2019 10 5 1 30 0)] 1800000000 [] = Inr [] \<and>
   (0::int) \<le> 1800000000 \<and>
   1800000000 \<le> total_duration [(utc_datetime 2019 10 5 0 30 0, utc_datetime 2019 10 5 1 30 0)] \<and>
   total_duration [] \<noteq> 1800000000"
  by code_simp

text \<open>
  C3, as amended: for a required duration that is not negative, the periods returned
  total at most the required duration; they total exactly the required duration when
  the candidates total exactly that much, and when the candidates total more and the
  aligned forecast entries total at least the required duration; when the candidates
  total more and there is no aligned forecast entry, the result is empty.
\<close>

theorem optimize_co2_total:
  assumes "optimize_co2 periods charge_time co2_measures = Inr out" and "0 \<le> charge_time"
  shows "total_duration out \<le> charge_time \<and>
    (total_duration periods = charge_time \<longrightarrow> total_duration out = charge_time) \<and>
    (charge_time < total_duration periods \<longrightarrow>
       (\<exists>forecasts. co2_forecasts periods co2_measures = Inr forecasts \<and>
          (charge_time \<le> total_duration (map fc_period forecasts) \<longrightarrow>
             total_duration out = charge_time) \<and>
          (forecasts = [] \<longrightarrow> out = [])))"
proof -
  from optimize_co2_cases [OF assms(1)] show ?thesis
  proof (elim disjE conjE exE)
    assume "total_duration periods \<le> charge_time" "out = periods"
    then show ?thesis by auto
  next
    fix fs t
    assume lt: "charge_time < total_duration periods"
      and fs: "co2_forecasts periods co2_measures = Inr fs"
      and t: "greedy_spec charge_time (sort_key fc_forecast fs) = Inr t"
      and out: "out = simplify_periods t"
    have a: "total_duration out \<le> charge_time"
      using greedy_total_le [OF t assms(2)] by (simp add: out total_duration_simplify)
    have b: "total_duration out = charge_time"
      if "charge_time \<le> total_duration (map fc_period fs)"
      using greedy_total_eq [OF t assms(2)] that
      by (simp add: out total_duration_simplify total_duration_sort_key)
    have c: "out = []" if "fs = []"
      using t that by (simp add: out simplify_periods_def)
    from a b c lt fs show ?thesis by auto
  qed
qed

theorem optimize_co2_total_witness:
  "(0::int) \<le> 1800000000 \<and>
   optimize_co2 [(utc_datetime 2019 10 5 0 30 0, utc_datetime 2019 10 5 1 30 0)] 1800000000
     [\<lparr>co2_from = utc_datetime 2019 9 28 0 0 0, co2_to = utc_datetime 2019 9 28 0 30 0, co2_intensity = 5\<rparr>,
      \<lparr>co2_from = utc_datetime 2019 9 28 0 30 0, co2_to = utc_datetime 2019 9 28 1 0 0, co2_intensity = 3\<rparr>,
      \<lparr>co2_from = utc_datetime 2019 9 28 1 0 0, co2_to = utc_datetime 2019 9 28 1 30 0, co2_intensity = 1\<rparr>]
     = Inr [(utc_datetime 2019 10 5 1 0 0, utc_datetime 2019 10 5 1 30 0)] \<and>
   total_duration [(utc_datetime 2019 10 5 1 0 0, utc_datetime 2019 10 5 1 30 0)] \<le> 1800000000"
proof -
  have e: "optimize_co2 [(utc_datetime 2019 10 5 0 30 0, utc_datetime 2019 10 5 1 30 0)] 1800000000
     [\<lparr>co2_from = utc_datetime 2019 9 28 0 0 0, co2_to = utc_datetime 2019 9 28 0 30 0, co2_intensity = 5\<rparr>,
      \<lparr>co2_from = utc_datetime 2019 9 28 0 30 0, co2_to = utc_datetime 2019 9 28 1 0 0, co2_intensity = 3\<rparr>,
      \<lparr>co2_from = utc_datetime 2019 9 28 1 0 0, co2_to = utc_datetime 2019 9 28 1 30 0, co2_intensity = 1\<rparr>]
     = Inr [(utc_datetime 2019 10 5 1 0 0, utc_datetime 2019 10 5 1 30 0)]"
    by code_simp
  have z: "(0::int) \<le> 1800000000" by simp
  from optimize_co2_total [OF e z] e show ?thesis by simp
qed

text \<open>
  C5. When the candidates total more than the required duration, the periods returned
  total the minimum of the required duration and the forecast time available: the sum,
  over every reading and every candidate, of the duration of the part of the reading,
  shifted by the week, that lies within the candidate. That sum is also the total of
  the entries the comprehension builds. The required duration is not negative, the
  candidates have their start no later than their end, and so have the readings.
\<close>

theorem optimize_co2_total_min:
  assumes "optimize_co2 periods charge_time co2_measures = Inr out"
    and "charge_time < total_duration periods" and "0 \<le> charge_time"
    and "\<forall>p\<in>set periods. utc_us (fst p) \<le> utc_us (snd p)"
    and "\<forall>co2\<in>set co2_measures. utc_us (co2_from co2) \<le> utc_us (co2_to co2)"
  shows "total_duration out = min charge_time (forecast_cover periods co2_measures) \<and>
    (\<exists>forecasts. co2_forecasts periods co2_measures = Inr forecasts \<and>
       total_duration (map fc_period forecasts) = forecast_cover periods co2_measures)"
proof -
  from optimize_co2_cases [OF assms(1)] assms(2) obtain fs t where
    fs: "co2_forecasts periods co2_measures = Inr fs"
    and t: "greedy_spec charge_time (sort_key fc_forecast fs) = Inr t"
    and out: "out = simplify_periods t"
    by auto
  have "0 \<le> duration (fc_period e)" if "e \<in> set (sort_key fc_forecast fs)" for e
    using co2_forecasts_nonneg [OF fs, of e] that assms(4,5) by simp
  from greedy_total_min [OF t assms(3) this]
  have m: "total_duration out = min charge_time (total_duration (map fc_period fs))"
    by (simp add: out total_duration_simplify total_duration_sort_key)
  have c: "total_duration (map fc_period fs) = forecast_cover periods co2_measures"
    by (rule co2_forecasts_total [OF fs]) (use assms(4,5) in auto)
  from m c fs show ?thesis by auto
qed

theorem optimize_co2_total_min_witness:
  "optimize_co2 [(utc_datetime 2019 10 5 0 30 0, utc_datetime 2019 10 5 1 30 0)] 3000000000
     [\<lparr>co2_from = utc_datetime 2019 9 28 0 0 0, co2_to = utc_datetime 2019 9 28 1 0 0, co2_intensity = 3\<rparr>,
      \<lparr>co2_from = utc_datetime 2019 9 28 5 0 0, co2_to = utc_datetime 2019 9 28 6 0 0, co2_intensity = 1\<rparr>]
     = Inr [(utc_datetime 2019 10 5 0 30 0, utc_datetime 2019 10 5 1 0 0)] \<and>
   forecast_cover [(utc_datetime 2019 10 5 0 30 0, utc_datetime 2019 10 5 1 30 0)]
     [\<lparr>co2_from = utc_datetime 2019 9 28 0 0 0, co2_to = utc_datetime 2019 9 28 1 0 0, co2_intensity = 3\<rparr>,
      \<lparr>co2_from = utc_datetime 2019 9 28 5 0 0, co2_to = utc_datetime 2019 9 28 6 0 0, co2_intensity = 1\<rparr>] = 1800000000 \<and>
   total_duration [(utc_datetime 2019 10 5 0 30 0, utc_datetime 2019 10 5 1 0 0)]
     = min 3000000000
         (forecast_cover [(utc_datetime 2019 10 5 0 30 0, utc_datetime 2019 10 5 1 30 0)]
            [\<lparr>co2_from = utc_datetime 2019 9 28 0 0 0, co2_to = utc_datetime 2019 9 28 1 0 0, co2_intensity = 3\<rparr>,
      \<lparr>co2_from = utc_datetime 2019 9 28 5 0 0, co2_to = utc_datetime 2019 9 28 6 0 0, co2_intensity = 1\<rparr>])"
proof -
  have e: "optimize_co2 [(utc_datetime 2019 10 5 0 30 0, utc_datetime 2019 10 5 1 30 0)] 3000000000
     [\<lparr>co2_from = utc_datetime 2019 9 28 0 0 0, co2_to = utc_datetime 2019 9 28 1 0 0, co2_intensity = 3\<rparr>,
      \<lparr>co2_from = utc_datetime 2019 9 28 5 0 0, co2_to = utc_datetime 2019 9 28 6 0 0, co2_intensity = 1\<rparr>]
     = Inr [(utc_datetime 2019 10 5 0 30 0, utc_datetime 2019 10 5 1 0 0)]"
    by code_simp
  have c: "forecast_cover [(utc_datetime 2019 10 5 0 30 0, utc_datetime 2019 10 5 1 30 0)]
     [\<lparr>co2_from = utc_datetime 2019 9 28 0 0 0, co2_to = utc_datetime 2019 9 28 1 0 0, co2_intensity = 3\<rparr>,
      \<lparr>co2_from = utc_datetime 2019 9 28 5 0 0, co2_to = utc_datetime 2019 9 28 6 0 0, co2_intensity = 1\<rparr>] = 1800000000"
    by code_simp
  have h1: "3000000000 < total_duration [(utc_datetime 2019 10 5 0 30 0, utc_datetime 2019 10 5 1 30 0)]"
    by code_simp
  have h2: "(0::int) \<le> 3000000000" by simp
  have h3: "\<forall>p\<in>set [(utc_datetime 2019 10 5 0 30 0, utc_datetime 2019 10 5 1 30 0)]. utc_us (fst p) \<le> utc_us (snd p)"
    by code_simp
  have h4: "\<forall>co2\<in>set [\<lparr>co2_from = utc_datetime 2019 9 28 0 0 0, co2_to = utc_datetime 2019 9 28 1 0 0, co2_intensity = 3\<rparr>,
      \<lparr>co2_from = utc_datetime 2019 9 28 5 0 0, co2_to = utc_datetime 2019 9 28 6 0 0, co2_intensity = 1\<rparr>]. utc_us (co2_from co2) \<le> utc_us (co2_to co2)"
    by code_simp
  from optimize_co2_total_min [OF e h1 h2 h3 h4] e c show ?thesis by blast
qed

section \<open>The order of the allocation\<close>

text \<open>
  C8. When the candidates total more than the required duration, the result of
  \<^verbatim>\<open>optimize_co2\<close> is the sorted list of the periods that the greedy consumption of
  the specification takes from the aligned forecast entries in ascending order of
  intensity: each whole entry while its duration is below what remains, then the prefix
  of exactly what remains. The taken periods come from an initial segment of the sorted
  entries, the j-th from the j-th entry, and whenever a period is taken from an entry,
  every entry of strictly lower intensity stands before it and has been taken whole.
\<close>

theorem optimize_co2_greedy:
  assumes "charge_time < total_duration periods"
    and "optimize_co2 periods charge_time co2_measures = Inr out"
  shows "\<exists>forecasts sorted_forecasts taken.
     co2_forecasts periods co2_measures = Inr forecasts \<and>
     sorted_forecasts = sort_key fc_forecast forecasts \<and>
     mset sorted_forecasts = mset forecasts \<and>
     sorted (map fc_forecast sorted_forecasts) \<and>
     greedy_spec charge_time sorted_forecasts = Inr taken \<and>
     out = simplify_periods taken \<and>
     length taken \<le> length sorted_forecasts \<and>
     (\<forall>j < length taken. fst (taken ! j) = fc_from (sorted_forecasts ! j) \<and>
        utc_us (snd (taken ! j)) \<le> utc_us (fc_to (sorted_forecasts ! j))) \<and>
     (\<forall>j < length taken. \<forall>i < length sorted_forecasts.
        fc_forecast (sorted_forecasts ! i) < fc_forecast (sorted_forecasts ! j) \<longrightarrow>
        i < j \<and> taken ! i = fc_period (sorted_forecasts ! i))"
proof -
  from optimize_co2_cases [OF assms(2)] assms(1) obtain fs t where
    fs: "co2_forecasts periods co2_measures = Inr fs"
    and t: "greedy_spec charge_time (sort_key fc_forecast fs) = Inr t"
    and out: "out = simplify_periods t"
    by auto
  let ?S = "sort_key fc_forecast fs"
  have srt: "sorted (map fc_forecast ?S)" by simp
  from greedy_shape [OF t] have len: "length t \<le> length ?S"
    and whole: "\<And>j. Suc j < length t \<Longrightarrow> t ! j = fc_period (?S ! j)" by auto
  have skip: "i < j \<and> t ! i = fc_period (?S ! i)"
    if "j < length t" "i < length ?S" "fc_forecast (?S ! i) < fc_forecast (?S ! j)" for i j
  proof -
    have "i < j"
    proof (rule ccontr)
      assume "\<not> i < j"
      then have "j \<le> i" by simp
      with srt that(2) have "map fc_forecast ?S ! j \<le> map fc_forecast ?S ! i"
        by (simp add: sorted_iff_nth_mono del: sorted_sort_key)
      with that len \<open>j \<le> i\<close> show False by simp
    qed
    moreover from this that(1) have "Suc i < length t" by simp
    ultimately show ?thesis using whole by simp
  qed
  from fs t out srt len greedy_nth [OF t] skip show ?thesis
    by (intro exI [of _ fs] exI [of _ ?S] exI [of _ t]) simp
qed

theorem optimize_co2_greedy_witness:
  "2700000000 < total_duration [(utc_datetime 2019 10 5 0 30 0, utc_datetime 2019 10 5 1 30 0)] \<and>
   optimize_co2 [(utc_datetime 2019 10 5 0 30 0, utc_datetime 2019 10 5 1 30 0)] 2700000000
     [\<lparr>co2_from = utc_datetime 2019 9 28 0 0 0, co2_to = utc_datetime 2019 9 28 0 30 0, co2_intensity = 5\<rparr>,
      \<lparr>co2_from = utc_datetime 2019 9 28 0 30 0, co2_to = utc_datetime 2019 9 28 1 0 0, co2_intensity = 3\<rparr>,
      \<lparr>co2_from = utc_datetime 2019 9 28 1 0 0, co2_to = utc_datetime 2019 9 28 1 30 0, co2_intensity = 1\<rparr>]
     = Inr [(utc_datetime 2019 10 5 0 30 0, utc_datetime 2019 10 5 0 45 0),
      (utc_datetime 2019 10 5 1 0 0, utc_datetime 2019 10 5 1 30 0)] \<and>
   (\<exists>forecasts taken.
      co2_forecasts [(utc_datetime 2019 10 5 0 30 0, utc_datetime 2019 10 5 1 30 0)]
        [\<lparr>co2_from = utc_datetime 2019 9 28 0 0 0, co2_to = utc_datetime 2019 9 28 0 30 0, co2_intensity = 5\<rparr>,
      \<lparr>co2_from = utc_datetime 2019 9 28 0 30 0, co2_to = utc_datetime 2019 9 28 1 0 0, co2_intensity = 3\<rparr>,
      \<lparr>co2_from = utc_datetime 2019 9 28 1 0 0, co2_to = utc_datetime 2019 9 28 1 30 0, co2_intensity = 1\<rparr>] = Inr forecasts \<and>
      greedy_spec 2700000000 (sort_key fc_forecast forecasts) = Inr taken \<and>
      [(utc_datetime 2019 10 5 0 30 0, utc_datetime 2019 10 5 0 45 0),
      (utc_datetime 2019 10 5 1 0 0, utc_datetime 2019 10 5 1 30 0)] = simplify_periods taken)"
proof -
  have h: "2700000000 < total_duration [(utc_datetime 2019 10 5 0 30 0, utc_datetime 2019 10 5 1 30 0)]"
    by code_simp
  have e: "optimize_co2 [(utc_datetime 2019 10 5 0 30 0, utc_datetime 2019 10 5 1 30 0)] 2700000000
     [\<lparr>co2_from = utc_datetime 2019 9 28 0 0 0, co2_to = utc_datetime 2019 9 28 0 30 0, co2_intensity = 5\<rparr>,
      \<lparr>co2_from = utc_datetime 2019 9 28 0 30 0, co2_to = utc_datetime 2019 9 28 1 0 0, co2_intensity = 3\<rparr>,
      \<lparr>co2_from = utc_datetime 2019 9 28 1 0 0, co2_to = utc_datetime 2019 9 28 1 30 0, co2_intensity = 1\<rparr>]
     = Inr [(utc_datetime 2019 10 5 0 30 0, utc_datetime 2019 10 5 0 45 0),
      (utc_datetime 2019 10 5 1 0 0, utc_datetime 2019 10 5 1 30 0)]"
    by code_simp
  from optimize_co2_greedy [OF h e] h e show ?thesis by auto
qed

section \<open>The schedule\<close>

lemma within_refl: "within p p"
  by (simp add: within_def)

lemma within_trans: "within p q \<Longrightarrow> within q r \<Longrightarrow> within p r"
  by (auto simp: within_def)

lemma within_points: "within p q \<Longrightarrow> points p \<subseteq> points q"
  by (auto simp: within_def points_def)

lemma set_simplify_periods: "set (simplify_periods ps) = set ps"
  by (simp add: simplify_periods_def)

lemma schedule_Inr:
  assumes "schedule rbt cm plug ops ope ms = Inr out"
  shows "\<exists>ct deadline. timedelta_minutes cm = Inr ct \<and>
     next_datetime_with_time plug rbt = Inr deadline \<and>
     (if dt_sub deadline plug \<le> ct then out = [(plug, deadline)]
      else \<exists>cps. charging_periods_of plug deadline ct ops ope ms = Inr cps \<and>
             out = simplify_periods cps)"
proof -
  from assms obtain ct where ct: "timedelta_minutes cm = Inr ct"
    by (cases "timedelta_minutes cm") (simp_all add: schedule_def)
  from assms ct obtain deadline where d: "next_datetime_with_time plug rbt = Inr deadline"
    by (cases "next_datetime_with_time plug rbt") (simp_all add: schedule_def)
  have a: "out = [(plug, deadline)]" if "dt_sub deadline plug \<le> ct"
    using assms that by (simp add: schedule_def ct d)
  have b: "\<exists>cps. charging_periods_of plug deadline ct ops ope ms = Inr cps \<and>
             out = simplify_periods cps" if "\<not> dt_sub deadline plug \<le> ct"
    using assms that
    by (cases "charging_periods_of plug deadline ct ops ope ms") (simp_all add: schedule_def ct d)
  from ct d a b show ?thesis by simp
qed

lemma charging_periods_of_Inr:
  assumes "charging_periods_of plug rb ct ops ope ms = Inr cps"
  shows "\<exists>off peak. off_peak_and_peak_periods plug rb ops ope = Inr (off, peak) \<and>
     (if ct \<le> total_duration off then optimize_co2 off ct ms = Inr cps
      else \<exists>opt. optimize_co2 peak (ct - total_duration off) ms = Inr opt \<and> cps = off @ opt)"
proof -
  from assms obtain off peak where p: "off_peak_and_peak_periods plug rb ops ope = Inr (off, peak)"
    by (cases "off_peak_and_peak_periods plug rb ops ope") (auto simp: charging_periods_of_def)
  have a: "optimize_co2 off ct ms = Inr cps" if "ct \<le> total_duration off"
    using assms that by (simp add: charging_periods_of_def p)
  have b: "\<exists>opt. optimize_co2 peak (ct - total_duration off) ms = Inr opt \<and> cps = off @ opt"
    if "\<not> ct \<le> total_duration off"
    using assms that
    by (cases "optimize_co2 peak (ct - total_duration off) ms")
      (auto simp: charging_periods_of_def p)
  from p a b show ?thesis by simp
qed

lemma optimize_co2_within:
  assumes "optimize_co2 ps r ms = Inr out" and "p \<in> set out"
  shows "\<exists>q\<in>set ps. within p q"
proof -
  from optimize_co2_cases [OF assms(1)] show ?thesis
  proof (elim disjE conjE exE)
    assume "out = ps"
    with assms(2) within_refl show ?thesis by blast
  next
    fix fs t
    assume fs: "co2_forecasts ps ms = Inr fs"
      and t: "greedy_spec r (sort_key fc_forecast fs) = Inr t"
      and out: "out = simplify_periods t"
    from assms(2) out have "p \<in> set t" by (simp add: set_simplify_periods)
    from greedy_taken [OF t this] obtain e where e: "e \<in> set fs"
      and pe: "fst p = fc_from e" "utc_us (snd p) \<le> utc_us (fc_to e)"
      by auto
    from co2_forecasts_within [OF fs e] obtain q where q: "q \<in> set ps" "within (fc_period e) q"
      by blast
    from pe q(2) have "within p q" by (simp add: within_def fc_period_def)
    with q(1) show ?thesis by blast
  qed
qed

lemma charging_periods_of_within:
  assumes "charging_periods_of plug rb ct ops ope ms = Inr cps" and "valid_datetime plug"
    and "p \<in> set cps"
  shows "within p (plug, rb)"
proof -
  from charging_periods_of_Inr [OF assms(1)] obtain off peak where
    part: "off_peak_and_peak_periods plug rb ops ope = Inr (off, peak)"
    and ab: "if ct \<le> total_duration off then optimize_co2 off ct ms = Inr cps
      else \<exists>opt. optimize_co2 peak (ct - total_duration off) ms = Inr opt \<and> cps = off @ opt"
    by blast
  from part assms(2) obtain s e where ps: "utc_us plug < utc_us s" and pe: "utc_us plug < utc_us e"
    and r: "(off, peak) = split_window plug rb s e"
    by (rule off_peak_and_peak_periods_Inr)
  have w: "within q (plug, rb)" if "q \<in> set off \<or> q \<in> set peak" for q
    by (rule split_window_within [OF r ps pe that])
  show ?thesis
  proof (cases "ct \<le> total_duration off")
    case True
    from True ab have "optimize_co2 off ct ms = Inr cps" by simp
    from optimize_co2_within [OF this assms(3)] obtain q where "q \<in> set off" "within p q"
      by blast
    with w show ?thesis using within_trans by blast
  next
    case False
    from False ab obtain opt where o: "optimize_co2 peak (ct - total_duration off) ms = Inr opt"
      and c: "cps = off @ opt" by auto
    from assms(3) c consider "p \<in> set off" | "p \<in> set opt" by auto
    then show ?thesis
    proof cases
      case 1
      with w show ?thesis by blast
    next
      case 2
      from optimize_co2_within [OF o 2] obtain q where "q \<in> set peak" "within p q" by blast
      with w show ?thesis using within_trans by blast
    qed
  qed
qed

lemma timedelta_minutes_ok:
  assumes "0 \<le> m" and "m < 1440000000000"
  shows "timedelta_minutes m = Inr (m * 60000000)"
proof -
  have d: "m = m div 1440 * 1440 + m mod 1440" by simp
  have r: "0 \<le> m mod 1440" "m mod 1440 < 1440" by simp_all
  have "0 \<le> m div 1440" using assms(1) by (simp add: pos_imp_zdiv_nonneg_iff)
  moreover have "m div 1440 \<le> 999999999" using d r assms(2) by linarith
  ultimately have "\<bar>m div 1440\<bar> \<le> 999999999" by simp
  then show ?thesis by (simp add: timedelta_minutes_def Let_def us_per_day_def)
qed

lemma charging_periods_of_total:
  assumes cps: "charging_periods_of plug deadline ct ops ope readings = Inr cps"
    and v: "valid_datetime plug" and pd: "utc_us plug < utc_us deadline"
    and ct: "0 \<le> ct" "ct < utc_us deadline - utc_us plug"
    and part: "off_peak_and_peak_periods plug deadline ops ope = Inr (off, peak)"
  shows "total_duration cps \<le> ct"
    and "co2_forecasts (fst (allocation_request off peak ct)) readings = Inr fs \<Longrightarrow>
         snd (allocation_request off peak ct) \<le> total_duration (map fc_period fs) \<Longrightarrow>
         total_duration cps = ct"
proof -
  from part v obtain s e where ps: "utc_us plug < utc_us s" and pe: "utc_us plug < utc_us e"
    and r: "(off, peak) = split_window plug deadline s e"
    by (rule off_peak_and_peak_periods_Inr)
  from charging_periods_of_Inr [OF cps] part have ab:
    "if ct \<le> total_duration off then optimize_co2 off ct readings = Inr cps
     else \<exists>opt. optimize_co2 peak (ct - total_duration off) readings = Inr opt \<and> cps = off @ opt"
    by auto
  have "total_duration cps \<le> ct \<and>
    (co2_forecasts (fst (allocation_request off peak ct)) readings = Inr fs \<longrightarrow>
     snd (allocation_request off peak ct) \<le> total_duration (map fc_period fs) \<longrightarrow>
     total_duration cps = ct)"
  proof (cases "ct \<le> total_duration off")
    case True
    with ab have o: "optimize_co2 off ct readings = Inr cps" by simp
    from optimize_co2_total_le [OF o ct(1)] optimize_co2_total_eq [OF o ct(1) _ _ True] True
    show ?thesis
      by (auto simp: allocation_request_def)
  next
    case False
    with ab obtain opt where o: "optimize_co2 peak (ct - total_duration off) readings = Inr opt"
      and ca: "cps = off @ opt" by auto
    from False have nn: "0 \<le> ct - total_duration off" by simp
    from False ct(2) have "total_duration off < utc_us deadline - utc_us plug" by simp
    from split_window_total(3) [OF r ps pe pd this] ct(2)
    have lt: "ct - total_duration off < total_duration peak" by simp
    from lt have le: "ct - total_duration off \<le> total_duration peak" by simp
    from optimize_co2_total_le [OF o nn] optimize_co2_total_eq [OF o nn _ _ le] False
    show ?thesis
      by (auto simp: allocation_request_def ca total_duration_simps)
  qed
  then show "total_duration cps \<le> ct"
    and "co2_forecasts (fst (allocation_request off peak ct)) readings = Inr fs \<Longrightarrow>
         snd (allocation_request off peak ct) \<le> total_duration (map fc_period fs) \<Longrightarrow>
         total_duration cps = ct"
    by blast+
qed

text \<open>
  The deadline of the scenario of the specification: plug-in at 2019-10-04T18:42:12Z,
  ready by 07:00.
\<close>

lemma scenario_deadline:
  "next_datetime_with_time (utc_datetime 2019 10 4 18 42 12) (7, 0) = Inr (utc_datetime 2019 10 5 7 0 12)"
  by code_simp

section \<open>When the functions return\<close>

text \<open>
  The results on \<^verbatim>\<open>optimize_co2\<close> and \<^verbatim>\<open>schedule\<close> are about the values the functions return. The functions return
  (no \<^verbatim>\<open>OverflowError\<close>, no \<^verbatim>\<open>ValueError\<close>) on every input that keeps some
  distance from the last day Python can hold: \<open>optimize_co2_ok\<close> for candidates two
  days and readings nine days before it, \<open>schedule_ok\<close> for a valid plug-in datetime
  three days before it, well-formed times of day and a charge time within the range of
  a \<^verbatim>\<open>timedelta\<close>.
\<close>

lemma valid_in_range:
  assumes "valid_datetime d" and "dt_ordinal d + k \<le> MAXORDINAL"
  shows "in_range k d"
proof -
  from valid_local_us [OF assms(1)] have l: "86400000000 \<le> local_us d"
    "local_us d < dt_ordinal d * 86400000000 + 86400000000" by simp_all
  from assms(2) have "dt_ordinal d + k \<le> 3652059" by (simp add: MAXORDINAL_def)
  then have "dt_ordinal d * 86400000000 + k * 86400000000 \<le> 3652059 * 86400000000"
    by (simp add: algebra_simps)
  with l assms(1) show ?thesis
    by (simp add: in_range_def valid_datetime_def us_per_day_def)
qed

lemma in_range_mono: "in_range k d \<Longrightarrow> j \<le> k \<Longrightarrow> in_range j d"
proof -
  assume a: "in_range k d" and "j \<le> k"
  then have "j * 86400000000 \<le> k * 86400000000" by simp
  with a show ?thesis by (simp add: in_range_def)
qed

lemma in_range_dt_max: "in_range k a \<Longrightarrow> in_range k b \<Longrightarrow> in_range k (dt_max a b)"
  by (simp add: dt_max_def)

lemma in_range_dt_min: "in_range k a \<Longrightarrow> in_range k b \<Longrightarrow> in_range k (dt_min a b)"
  by (simp add: dt_min_def)

lemma dt_add_week_ok:
  assumes "in_range 9 d"
  shows "\<exists>r. dt_add d 604800000000 = Inr r \<and> in_range 2 r"
proof -
  from assms have a: "86400000000 \<le> local_us d" "local_us d + 9 * 86400000000 < 315537984000000000"
    and o: "- 86400000000 < dt_utcoffset d" "dt_utcoffset d < 86400000000"
    by (simp_all add: in_range_def)
  from a obtain r where r: "dt_add d 604800000000 = Inr r"
    using dt_add_ok [of d 604800000000] by auto
  from dt_add_Inr(2,3) [OF r] a o have "in_range 2 r" by (simp add: in_range_def)
  with r show ?thesis by blast
qed

lemma dt_add_prefix_ok:
  assumes "in_range 2 a" and "in_range 2 b" and "0 < r" and "r \<le> utc_us b - utc_us a"
  shows "\<exists>pe. dt_add a r = Inr pe"
proof -
  from assms(1,2) have "86400000000 \<le> local_us a"
    "local_us b + 2 * 86400000000 < 315537984000000000"
    "dt_utcoffset a < 86400000000" "- 86400000000 < dt_utcoffset b"
    by (simp_all add: in_range_def)
  with assms(3,4) show ?thesis
    by (intro dt_add_ok) (simp_all add: utc_us_def)
qed

lemma clip_forecast_ok:
  assumes "in_range 9 (co2_from m)" and "in_range 9 (co2_to m)"
    and "in_range 2 (fst p)" and "in_range 2 (snd p)"
  shows "\<exists>zs. clip_forecast m p = Inr zs \<and>
           (\<forall>e\<in>set zs. in_range 2 (fc_from e) \<and> in_range 2 (fc_to e))"
proof -
  from dt_add_week_ok [OF assms(1)] obtain sf where
    sf: "dt_add (co2_from m) 604800000000 = Inr sf" "in_range 2 sf" by blast
  from dt_add_week_ok [OF assms(2)] obtain st where
    st: "dt_add (co2_to m) 604800000000 = Inr st" "in_range 2 st" by blast
  obtain pf pt where p: "p = (pf, pt)" by (cases p)
  with assms(3,4) sf st show ?thesis
    by (simp add: clip_forecast_def shift_to_forecast_def timedelta_weeks_def us_per_day_def
        in_range_dt_max in_range_dt_min)
qed

lemma collect_ok_inv:
  assumes "\<And>x. x \<in> set xs \<Longrightarrow> \<exists>zs. f x = Inr zs \<and> (\<forall>z\<in>set zs. P z)"
  shows "\<exists>ys. collect f xs = Inr ys \<and> (\<forall>y\<in>set ys. P y)"
  using assms
proof (induction xs)
  case Nil
  show ?case by simp
next
  case (Cons x xs)
  from Cons.prems [of x] obtain zs where z: "f x = Inr zs" "\<forall>z\<in>set zs. P z" by auto
  from Cons.IH Cons.prems obtain ys where y: "collect f xs = Inr ys" "\<forall>y\<in>set ys. P y"
    by (metis list.set_intros(2))
  from z y show ?case by auto
qed

lemma co2_forecasts_ok:
  assumes "\<And>m. m \<in> set ms \<Longrightarrow> in_range 9 (co2_from m) \<and> in_range 9 (co2_to m)"
    and "\<And>p. p \<in> set ps \<Longrightarrow> in_range 2 (fst p) \<and> in_range 2 (snd p)"
  shows "\<exists>fs. co2_forecasts ps ms = Inr fs \<and>
           (\<forall>e\<in>set fs. in_range 2 (fc_from e) \<and> in_range 2 (fc_to e))"
  unfolding co2_forecasts_def
proof (rule collect_ok_inv)
  fix m assume m: "m \<in> set ms"
  show "\<exists>zs. collect (clip_forecast m) ps = Inr zs \<and>
           (\<forall>z\<in>set zs. in_range 2 (fc_from z) \<and> in_range 2 (fc_to z))"
  proof (rule collect_ok_inv)
    fix p assume "p \<in> set ps"
    with assms m show "\<exists>zs. clip_forecast m p = Inr zs \<and>
           (\<forall>e\<in>set zs. in_range 2 (fc_from e) \<and> in_range 2 (fc_to e))"
      by (intro clip_forecast_ok) auto
  qed
qed

lemma greedy_spec_ok:
  assumes "\<And>e. e \<in> set es \<Longrightarrow> in_range 2 (fc_from e) \<and> in_range 2 (fc_to e)"
  shows "\<exists>t. greedy_spec r es = Inr t"
  using assms
proof (induction es arbitrary: r)
  case Nil
  show ?case by simp
next
  case (Cons e es)
  show ?case
  proof (cases "0 < r")
    case False
    then show ?thesis by simp
  next
    case pos: True
    show ?thesis
    proof (cases "duration (fc_period e) < r")
      case True
      from Cons.IH [of "r - duration (fc_period e)"] Cons.prems obtain t where
        "greedy_spec (r - duration (fc_period e)) es = Inr t" by auto
      with pos True show ?thesis by simp
    next
      case False
      then have "r \<le> utc_us (fc_to e) - utc_us (fc_from e)"
        by (simp add: fc_period_def duration_pair)
      with Cons.prems [of e] pos obtain pe where "dt_add (fc_from e) r = Inr pe"
        using dt_add_prefix_ok [of "fc_from e" "fc_to e" r] by auto
      with pos False show ?thesis by simp
    qed
  qed
qed

lemma optimize_co2_ok:
  assumes "\<And>m. m \<in> set ms \<Longrightarrow> in_range 9 (co2_from m) \<and> in_range 9 (co2_to m)"
    and "\<And>p. p \<in> set ps \<Longrightarrow> in_range 2 (fst p) \<and> in_range 2 (snd p)"
  shows "\<exists>out. optimize_co2 ps r ms = Inr out"
proof -
  from co2_forecasts_ok [OF assms] obtain fs where
    fs: "co2_forecasts ps ms = Inr fs"
    and r: "\<forall>e\<in>set fs. in_range 2 (fc_from e) \<and> in_range 2 (fc_to e)"
    by blast
  have "\<exists>t. greedy_spec r (sort_key fc_forecast fs) = Inr t"
    by (rule greedy_spec_ok) (use r in simp)
  then obtain t where "greedy_spec r (sort_key fc_forecast fs) = Inr t" by blast
  with fs show ?thesis by (simp add: optimize_co2_def charge_loop_greedy)
qed

lemma next_datetime_with_time_in_range:
  assumes "next_datetime_with_time c t = Inr r" and "valid_datetime c"
    and "dt_ordinal c + k + 1 \<le> MAXORDINAL"
  shows "in_range k r"
proof -
  obtain h m where t: "t = (h, m)" by (cases t)
  let ?s = "c\<lparr>dt_hour := h, dt_minute := m\<rparr>"
  from assms(1) have vt: "valid_time (h, m)"
    by (auto simp: next_datetime_with_time_def t replace_hour_minute_iff split: sum.splits)
  then have b: "0 \<le> h" "h \<le> 23" "0 \<le> m" "m \<le> 59" by (simp_all add: valid_time_def)
  from assms(1) vt have r: "if utc_us ?s \<le> utc_us c then dt_add ?s 86400000000 = Inr r else r = ?s"
    by (auto simp: next_datetime_with_time_def t replace_hour_minute_def valid_time_def dt_le_def
        timedelta_days_def us_per_day_def split: if_splits)
  have v: "1 \<le> dt_ordinal c" "0 \<le> dt_second c" "dt_second c \<le> 59"
    "0 \<le> dt_microsecond c" "dt_microsecond c \<le> 999999"
    "- 86400000000 < dt_utcoffset c" "dt_utcoffset c < 86400000000"
    using assms(2) by (simp_all add: valid_datetime_def us_per_day_def)
  have lo: "dt_ordinal c * 86400000000 \<le> local_us ?s"
    and hi: "local_us ?s < dt_ordinal c * 86400000000 + 86400000000"
    unfolding local_us_expand using b v by simp_all
  from assms(3) have "dt_ordinal c + k + 1 \<le> 3652059" by (simp add: MAXORDINAL_def)
  then have m: "dt_ordinal c * 86400000000 + k * 86400000000 + 86400000000
      \<le> 3652059 * 86400000000"
    by (simp add: algebra_simps)
  from v(1) have d1: "86400000000 \<le> dt_ordinal c * 86400000000" by simp
  show ?thesis
  proof (cases "utc_us ?s \<le> utc_us c")
    case True
    with r have a: "dt_add ?s 86400000000 = Inr r" by simp
    from dt_add_Inr(2,3) [OF a] lo hi m d1 v show ?thesis by (simp add: in_range_def)
  next
    case False
    with r have "r = ?s" by simp
    with lo hi m d1 v show ?thesis by (simp add: in_range_def)
  qed
qed

lemma split_window_ends:
  assumes "(off, peak) = split_window pi rb s e" and "p \<in> set off \<or> p \<in> set peak"
  shows "fst p \<in> {pi, s, e, rb} \<and> snd p \<in> {pi, s, e, rb}"
  using assms by (auto simp: split_window_def split: if_splits)

lemma schedule_ok:
  assumes v: "valid_datetime plug" and room: "dt_ordinal plug + 3 \<le> MAXORDINAL"
    and t: "valid_time rbt" "valid_time ops" "valid_time ope"
    and cm: "0 \<le> cm" "cm < 1440000000000"
    and ms: "\<And>m. m \<in> set readings \<Longrightarrow> in_range 9 (co2_from m) \<and> in_range 9 (co2_to m)"
  shows "\<exists>sched. schedule rbt cm plug ops ope readings = Inr sched"
proof -
  from room have lt: "dt_ordinal plug < MAXORDINAL" and r2: "dt_ordinal plug + 2 + 1 \<le> MAXORDINAL"
    and r0: "dt_ordinal plug + 2 \<le> MAXORDINAL" by simp_all
  have ct: "timedelta_minutes cm = Inr (cm * 60000000)" by (rule timedelta_minutes_ok [OF cm])
  obtain deadline where d: "next_datetime_with_time plug rbt = Inr deadline"
    using next_datetime_with_time_ok [OF v t(1) lt] by blast
  obtain s where s: "next_datetime_with_time plug ops = Inr s"
    using next_datetime_with_time_ok [OF v t(2) lt] by blast
  obtain e where e: "next_datetime_with_time plug ope = Inr e"
    using next_datetime_with_time_ok [OF v t(3) lt] by blast
  have rng: "in_range 2 plug" "in_range 2 deadline" "in_range 2 s" "in_range 2 e"
    using valid_in_range [OF v r0] next_datetime_with_time_in_range [OF d v r2]
      next_datetime_with_time_in_range [OF s v r2] next_datetime_with_time_in_range [OF e v r2]
    by simp_all
  obtain off peak where w: "(off, peak) = split_window plug deadline s e" by (metis surj_pair)
  have part: "off_peak_and_peak_periods plug deadline ops ope = Inr (off, peak)"
    by (simp add: off_peak_and_peak_periods_ok [OF s e] w)
  have pr: "in_range 2 (fst p) \<and> in_range 2 (snd p)" if "p \<in> set off \<or> p \<in> set peak" for p
    using split_window_ends [OF w that] rng by auto
  obtain o1 where o1: "optimize_co2 off (cm * 60000000) readings = Inr o1"
    using optimize_co2_ok [of readings off] ms pr by blast
  obtain o2 where o2: "optimize_co2 peak (cm * 60000000 - total_duration off) readings = Inr o2"
    using optimize_co2_ok [of readings peak] ms pr by blast
  have "\<exists>cps. charging_periods_of plug deadline (cm * 60000000) ops ope readings = Inr cps"
    using o1 o2 by (simp add: charging_periods_of_def part Let_def)
  then show ?thesis
    by (auto simp: schedule_def ct d)
qed

text \<open>
  C10. When the candidates total more than the required duration, every period that
  \<^verbatim>\<open>optimize_co2\<close> returns lies within one of the candidates; and when
  \<^verbatim>\<open>schedule\<close> does not return the whole window at once, every period of the
  schedule lies within the window from the plug-in to the deadline. Containment is
  stated on the end points and on the time points.
\<close>

theorem charging_periods_within:
  "(charge_time < total_duration periods \<and>
      optimize_co2 periods charge_time co2_measures = Inr out \<longrightarrow>
      (\<forall>p\<in>set out. \<exists>q\<in>set periods. within p q \<and> points p \<subseteq> points q)) \<and>
   (valid_datetime plug_in \<and> timedelta_minutes charge_minutes = Inr charge_time' \<and>
      next_datetime_with_time plug_in ready_by = Inr deadline \<and>
      \<not> dt_sub deadline plug_in \<le> charge_time' \<and>
      schedule ready_by charge_minutes plug_in off_peak_start off_peak_end readings = Inr sched \<longrightarrow>
      (\<forall>p\<in>set sched. within p (plug_in, deadline) \<and> points p \<subseteq> points (plug_in, deadline)))"
proof (intro conjI impI ballI)
  fix p
  assume "charge_time < total_duration periods \<and>
      optimize_co2 periods charge_time co2_measures = Inr out" and "p \<in> set out"
  then obtain q where "q \<in> set periods" "within p q" using optimize_co2_within by blast
  then show "\<exists>q\<in>set periods. within p q \<and> points p \<subseteq> points q"
    using within_points by blast
next
  fix p
  assume a: "valid_datetime plug_in \<and> timedelta_minutes charge_minutes = Inr charge_time' \<and>
      next_datetime_with_time plug_in ready_by = Inr deadline \<and>
      \<not> dt_sub deadline plug_in \<le> charge_time' \<and>
      schedule ready_by charge_minutes plug_in off_peak_start off_peak_end readings = Inr sched"
    and p: "p \<in> set sched"
  from schedule_Inr [of ready_by charge_minutes plug_in off_peak_start off_peak_end readings sched] a
  obtain cps where
    "charging_periods_of plug_in deadline charge_time' off_peak_start off_peak_end readings = Inr cps"
    and "sched = simplify_periods cps"
    by auto
  with p a have w: "within p (plug_in, deadline)"
    using charging_periods_of_within by (simp add: set_simplify_periods)
  then show "within p (plug_in, deadline)" .
  from w show "points p \<subseteq> points (plug_in, deadline)" by (rule within_points)
qed

theorem charging_periods_within_witness:
  "schedule (7, 0) 300 (utc_datetime 2019 10 4 18 42 12) (0, 30) (7, 30)
     [\<lparr>co2_from = utc_datetime 2019 9 28 0 0 0, co2_to = utc_datetime 2019 9 28 3 0 0, co2_intensity = 5\<rparr>,
      \<lparr>co2_from = utc_datetime 2019 9 28 3 0 0, co2_to = utc_datetime 2019 9 28 7 30 0, co2_intensity = 2\<rparr>]
     = Inr [(utc_datetime 2019 10 5 0 30 12, utc_datetime 2019 10 5 1 30 0),
      (utc_datetime 2019 10 5 3 0 0, utc_datetime 2019 10 5 7 0 12)] \<and>
   within (utc_datetime 2019 10 5 0 30 12, utc_datetime 2019 10 5 1 30 0)
     (utc_datetime 2019 10 4 18 42 12, utc_datetime 2019 10 5 7 0 12) \<and>
   within (utc_datetime 2019 10 5 3 0 0, utc_datetime 2019 10 5 7 0 12)
     (utc_datetime 2019 10 4 18 42 12, utc_datetime 2019 10 5 7 0 12) \<and>
   optimize_co2 [(utc_datetime 2019 10 5 0 30 12, utc_datetime 2019 10 5 7 0 12)] 18000000000
     [\<lparr>co2_from = utc_datetime 2019 9 28 0 0 0, co2_to = utc_datetime 2019 9 28 3 0 0, co2_intensity = 5\<rparr>,
      \<lparr>co2_from = utc_datetime 2019 9 28 3 0 0, co2_to = utc_datetime 2019 9 28 7 30 0, co2_intensity = 2\<rparr>]
     = Inr [(utc_datetime 2019 10 5 0 30 12, utc_datetime 2019 10 5 1 30 0),
      (utc_datetime 2019 10 5 3 0 0, utc_datetime 2019 10 5 7 0 12)] \<and>
   within (utc_datetime 2019 10 5 0 30 12, utc_datetime 2019 10 5 1 30 0)
     (utc_datetime 2019 10 5 0 30 12, utc_datetime 2019 10 5 7 0 12) \<and>
   within (utc_datetime 2019 10 5 3 0 0, utc_datetime 2019 10 5 7 0 12)
     (utc_datetime 2019 10 5 0 30 12, utc_datetime 2019 10 5 7 0 12)"
proof -
  have s: "schedule (7, 0) 300 (utc_datetime 2019 10 4 18 42 12) (0, 30) (7, 30)
     [\<lparr>co2_from = utc_datetime 2019 9 28 0 0 0, co2_to = utc_datetime 2019 9 28 3 0 0, co2_intensity = 5\<rparr>,
      \<lparr>co2_from = utc_datetime 2019 9 28 3 0 0, co2_to = utc_datetime 2019 9 28 7 30 0, co2_intensity = 2\<rparr>]
     = Inr [(utc_datetime 2019 10 5 0 30 12, utc_datetime 2019 10 5 1 30 0),
      (utc_datetime 2019 10 5 3 0 0, utc_datetime 2019 10 5 7 0 12)]"
    by code_simp
  have o: "optimize_co2 [(utc_datetime 2019 10 5 0 30 12, utc_datetime 2019 10 5 7 0 12)] 18000000000
     [\<lparr>co2_from = utc_datetime 2019 9 28 0 0 0, co2_to = utc_datetime 2019 9 28 3 0 0, co2_intensity = 5\<rparr>,
      \<lparr>co2_from = utc_datetime 2019 9 28 3 0 0, co2_to = utc_datetime 2019 9 28 7 30 0, co2_intensity = 2\<rparr>]
     = Inr [(utc_datetime 2019 10 5 0 30 12, utc_datetime 2019 10 5 1 30 0),
      (utc_datetime 2019 10 5 3 0 0, utc_datetime 2019 10 5 7 0 12)]"
    by code_simp
  have h1: "18000000000 < total_duration [(utc_datetime 2019 10 5 0 30 12, utc_datetime 2019 10 5 7 0 12)]"
    by code_simp
  have h2: "valid_datetime (utc_datetime 2019 10 4 18 42 12)" by code_simp
  have h3: "timedelta_minutes 300 = Inr 18000000000" by code_simp
  have h4: "\<not> dt_sub (utc_datetime 2019 10 5 7 0 12) (utc_datetime 2019 10 4 18 42 12) \<le> 18000000000"
    by code_simp
  from charging_periods_within [of 18000000000 "[(utc_datetime 2019 10 5 0 30 12, utc_datetime 2019 10 5 7 0 12)]"
      "[\<lparr>co2_from = utc_datetime 2019 9 28 0 0 0, co2_to = utc_datetime 2019 9 28 3 0 0, co2_intensity = 5\<rparr>,
      \<lparr>co2_from = utc_datetime 2019 9 28 3 0 0, co2_to = utc_datetime 2019 9 28 7 30 0, co2_intensity = 2\<rparr>]"
      "[(utc_datetime 2019 10 5 0 30 12, utc_datetime 2019 10 5 1 30 0),
      (utc_datetime 2019 10 5 3 0 0, utc_datetime 2019 10 5 7 0 12)]"
      "(utc_datetime 2019 10 4 18 42 12)" 300 18000000000 "(7, 0)" "utc_datetime 2019 10 5 7 0 12" "(0, 30)" "(7, 30)"
      "[\<lparr>co2_from = utc_datetime 2019 9 28 0 0 0, co2_to = utc_datetime 2019 9 28 3 0 0, co2_intensity = 5\<rparr>,
      \<lparr>co2_from = utc_datetime 2019 9 28 3 0 0, co2_to = utc_datetime 2019 9 28 7 30 0, co2_intensity = 2\<rparr>]"
      "[(utc_datetime 2019 10 5 0 30 12, utc_datetime 2019 10 5 1 30 0),
      (utc_datetime 2019 10 5 3 0 0, utc_datetime 2019 10 5 7 0 12)]"]
    s o h1 h2 h3 h4 scenario_deadline
  show ?thesis by simp
qed

text \<open>
  C9. Every schedule returned is in ascending order of the start instants. When the
  whole window is not returned at once, the schedule holds exactly the periods of
  \<^verbatim>\<open>charging_periods\<close>, each as often as it occurs there (nothing is merged and
  no duplicate is dropped), and periods with the same start keep their order.
\<close>

theorem schedule_sorted:
  assumes "schedule ready_by charge_minutes plug_in off_peak_start off_peak_end readings = Inr sched"
  shows "sorted (map (\<lambda>p. utc_us (fst p)) sched) \<and>
    (\<exists>charge_time deadline.
       timedelta_minutes charge_minutes = Inr charge_time \<and>
       next_datetime_with_time plug_in ready_by = Inr deadline \<and>
       (if dt_sub deadline plug_in \<le> charge_time then sched = [(plug_in, deadline)]
        else \<exists>charging_periods.
          charging_periods_of plug_in deadline charge_time off_peak_start off_peak_end readings
            = Inr charging_periods \<and>
          mset sched = mset charging_periods \<and> length sched = length charging_periods \<and>
          (\<forall>k. filter (\<lambda>p. utc_us (fst p) = k) sched
                 = filter (\<lambda>p. utc_us (fst p) = k) charging_periods)))"
proof -
  from schedule_Inr [OF assms] obtain ct deadline where
    ct: "timedelta_minutes charge_minutes = Inr ct"
    and d: "next_datetime_with_time plug_in ready_by = Inr deadline"
    and c: "if dt_sub deadline plug_in \<le> ct then sched = [(plug_in, deadline)]
      else \<exists>cps. charging_periods_of plug_in deadline ct off_peak_start off_peak_end readings = Inr cps \<and>
             sched = simplify_periods cps"
    by blast
  show ?thesis
  proof (cases "dt_sub deadline plug_in \<le> ct")
    case True
    with c ct d show ?thesis by simp
  next
    case False
    with c obtain cps where
      cps: "charging_periods_of plug_in deadline ct off_peak_start off_peak_end readings = Inr cps"
      and s: "sched = simplify_periods cps"
      by auto
    have "sorted (map (\<lambda>p. utc_us (fst p)) sched)"
      by (simp add: s simplify_periods_def)
    moreover have "mset sched = mset cps" "length sched = length cps"
      by (simp_all add: s simplify_periods_def)
    moreover have "filter (\<lambda>p. utc_us (fst p) = k) sched = filter (\<lambda>p. utc_us (fst p) = k) cps" for k
      unfolding s simplify_periods_def by (rule sort_key_stable)
    ultimately show ?thesis using False ct d cps by auto
  qed
qed

theorem schedule_sorted_witness:
  "schedule (7, 0) 420 (utc_datetime 2019 10 4 18 42 12) (0, 30) (7, 30)
     [\<lparr>co2_from = utc_datetime 2019 9 27 18 0 0, co2_to = utc_datetime 2019 9 28 0 30 0, co2_intensity = 4\<rparr>]
     = Inr [(utc_datetime 2019 10 4 18 42 12, utc_datetime 2019 10 4 19 12 12),
      (utc_datetime 2019 10 5 0 30 12, utc_datetime 2019 10 5 7 0 12)] \<and>
   sorted (map (\<lambda>p. utc_us (fst p))
     [(utc_datetime 2019 10 4 18 42 12, utc_datetime 2019 10 4 19 12 12),
      (utc_datetime 2019 10 5 0 30 12, utc_datetime 2019 10 5 7 0 12)]) \<and>
   charging_periods_of (utc_datetime 2019 10 4 18 42 12) (utc_datetime 2019 10 5 7 0 12) 25200000000 (0, 30) (7, 30)
     [\<lparr>co2_from = utc_datetime 2019 9 27 18 0 0, co2_to = utc_datetime 2019 9 28 0 30 0, co2_intensity = 4\<rparr>]
     = Inr [(utc_datetime 2019 10 5 0 30 12, utc_datetime 2019 10 5 7 0 12),
      (utc_datetime 2019 10 4 18 42 12, utc_datetime 2019 10 4 19 12 12)]"
proof -
  have s: "schedule (7, 0) 420 (utc_datetime 2019 10 4 18 42 12) (0, 30) (7, 30)
     [\<lparr>co2_from = utc_datetime 2019 9 27 18 0 0, co2_to = utc_datetime 2019 9 28 0 30 0, co2_intensity = 4\<rparr>]
     = Inr [(utc_datetime 2019 10 4 18 42 12, utc_datetime 2019 10 4 19 12 12),
      (utc_datetime 2019 10 5 0 30 12, utc_datetime 2019 10 5 7 0 12)]"
    by code_simp
  have c: "charging_periods_of (utc_datetime 2019 10 4 18 42 12) (utc_datetime 2019 10 5 7 0 12) 25200000000 (0, 30) (7, 30)
     [\<lparr>co2_from = utc_datetime 2019 9 27 18 0 0, co2_to = utc_datetime 2019 9 28 0 30 0, co2_intensity = 4\<rparr>]
     = Inr [(utc_datetime 2019 10 5 0 30 12, utc_datetime 2019 10 5 7 0 12),
      (utc_datetime 2019 10 4 18 42 12, utc_datetime 2019 10 4 19 12 12)]"
    by code_simp
  from schedule_sorted [OF s] s c show ?thesis by simp
qed

text \<open>
  C7. When the charge duration is at most the total duration of the off-peak periods,
  every period of the schedule lies within an off-peak period; and unless the
  partitioner returned the same list twice (its last branch), no period of the schedule
  shares a time point with a peak period.
\<close>

theorem schedule_off_peak_first:
  assumes "valid_datetime plug_in"
    and "schedule ready_by charge_minutes plug_in off_peak_start off_peak_end readings = Inr sched"
    and "timedelta_minutes charge_minutes = Inr charge_time"
    and "next_datetime_with_time plug_in ready_by = Inr deadline"
    and "off_peak_and_peak_periods plug_in deadline off_peak_start off_peak_end = Inr (off, peak)"
    and "charge_time \<le> total_duration off"
  shows "(\<forall>p\<in>set sched. \<exists>q\<in>set off. within p q \<and> points p \<subseteq> points q) \<and>
         (off = peak \<or> (\<forall>p\<in>set sched. \<forall>q\<in>set peak. points p \<inter> points q = {}))"
proof -
  from assms(5,1) obtain s e where ps: "utc_us plug_in < utc_us s" and pe: "utc_us plug_in < utc_us e"
    and r: "(off, peak) = split_window plug_in deadline s e"
    by (rule off_peak_and_peak_periods_Inr)
  have pd: "utc_us plug_in < utc_us deadline"
    by (rule next_datetime_with_time_Inr(1) [OF assms(4,1)])
  from schedule_Inr [OF assms(2)] assms(3,4) have c:
    "if dt_sub deadline plug_in \<le> charge_time then sched = [(plug_in, deadline)]
      else \<exists>cps. charging_periods_of plug_in deadline charge_time off_peak_start off_peak_end readings
             = Inr cps \<and> sched = simplify_periods cps"
    by auto
  have a: "\<exists>q\<in>set off. within p q" if p: "p \<in> set sched" for p
  proof (cases "dt_sub deadline plug_in \<le> charge_time")
    case True
    with assms(6) have "utc_us deadline - utc_us plug_in \<le> total_duration off"
      by (simp add: dt_sub_def)
    from split_window_total(2) [OF r ps pe pd this] have "off = [(plug_in, deadline)]" .
    moreover from True c p have "p = (plug_in, deadline)" by simp
    ultimately show ?thesis by (simp add: within_refl)
  next
    case False
    with c obtain cps where
      cps: "charging_periods_of plug_in deadline charge_time off_peak_start off_peak_end readings
             = Inr cps" and s: "sched = simplify_periods cps"
      by auto
    from charging_periods_of_Inr [OF cps] assms(5,6) have "optimize_co2 off charge_time readings = Inr cps"
      by auto
    moreover from p s have "p \<in> set cps" by (simp add: set_simplify_periods)
    ultimately show ?thesis by (rule optimize_co2_within)
  qed
  have b: "points p \<inter> points q = {}" if "off \<noteq> peak" "p \<in> set sched" "q \<in> set peak" for p q
  proof -
    from a [OF that(2)] obtain w where w: "w \<in> set off" "within p w" by blast
    from split_window_off_peak_disjoint [OF r ps pe pd that(1) w(1) that(3)]
    have "points w \<inter> points q = {}" .
    with within_points [OF w(2)] show ?thesis by blast
  qed
  from a b show ?thesis using within_points by blast
qed

theorem schedule_off_peak_first_witness:
  "schedule (7, 0) 300 (utc_datetime 2019 10 4 18 42 12) (0, 30) (7, 30)
     [\<lparr>co2_from = utc_datetime 2019 9 28 0 0 0, co2_to = utc_datetime 2019 9 28 3 0 0, co2_intensity = 5\<rparr>,
      \<lparr>co2_from = utc_datetime 2019 9 28 3 0 0, co2_to = utc_datetime 2019 9 28 7 30 0, co2_intensity = 2\<rparr>]
     = Inr [(utc_datetime 2019 10 5 0 30 12, utc_datetime 2019 10 5 1 30 0),
      (utc_datetime 2019 10 5 3 0 0, utc_datetime 2019 10 5 7 0 12)] \<and>
   off_peak_and_peak_periods (utc_datetime 2019 10 4 18 42 12) (utc_datetime 2019 10 5 7 0 12) (0, 30) (7, 30)
     = Inr ([(utc_datetime 2019 10 5 0 30 12, utc_datetime 2019 10 5 7 0 12)],
            [(utc_datetime 2019 10 4 18 42 12, utc_datetime 2019 10 5 0 30 12)]) \<and>
   18000000000 \<le> total_duration [(utc_datetime 2019 10 5 0 30 12, utc_datetime 2019 10 5 7 0 12)] \<and>
   (\<exists>q\<in>set [(utc_datetime 2019 10 5 0 30 12, utc_datetime 2019 10 5 7 0 12)].
       within (utc_datetime 2019 10 5 0 30 12, utc_datetime 2019 10 5 1 30 0) q) \<and>
   (\<exists>q\<in>set [(utc_datetime 2019 10 5 0 30 12, utc_datetime 2019 10 5 7 0 12)].
       within (utc_datetime 2019 10 5 3 0 0, utc_datetime 2019 10 5 7 0 12) q)"
proof -
  have s: "schedule (7, 0) 300 (utc_datetime 2019 10 4 18 42 12) (0, 30) (7, 30)
     [\<lparr>co2_from = utc_datetime 2019 9 28 0 0 0, co2_to = utc_datetime 2019 9 28 3 0 0, co2_intensity = 5\<rparr>,
      \<lparr>co2_from = utc_datetime 2019 9 28 3 0 0, co2_to = utc_datetime 2019 9 28 7 30 0, co2_intensity = 2\<rparr>]
     = Inr [(utc_datetime 2019 10 5 0 30 12, utc_datetime 2019 10 5 1 30 0),
      (utc_datetime 2019 10 5 3 0 0, utc_datetime 2019 10 5 7 0 12)]"
    by code_simp
  have o: "off_peak_and_peak_periods (utc_datetime 2019 10 4 18 42 12) (utc_datetime 2019 10 5 7 0 12) (0, 30) (7, 30)
     = Inr ([(utc_datetime 2019 10 5 0 30 12, utc_datetime 2019 10 5 7 0 12)],
            [(utc_datetime 2019 10 4 18 42 12, utc_datetime 2019 10 5 0 30 12)])"
    by code_simp
  have h1: "valid_datetime (utc_datetime 2019 10 4 18 42 12)" by code_simp
  have h2: "timedelta_minutes 300 = Inr 18000000000" by code_simp
  have h3: "18000000000 \<le> total_duration [(utc_datetime 2019 10 5 0 30 12, utc_datetime 2019 10 5 7 0 12)]"
    by code_simp
  from schedule_off_peak_first [OF h1 s h2 scenario_deadline o h3] s o h3
  show ?thesis by simp
qed

section \<open>Empty periods\<close>

text \<open>
  C6. The claim is that every period of every output list has its start strictly
  before its end. The comprehension of \<^verbatim>\<open>optimize_co2\<close> keeps a reading whose
  shifted end equals the start of a candidate (its comparisons are not strict), the
  clipped entry has then no duration, and the loop takes it whole. With plug-in at
  18:30:00, ready-by 07:00, 300 minutes and the off-peak window from 00:30 to 07:30, a
  reading from 00:00 to 00:30 of the week before, of the lowest intensity, puts the
  period from 00:30 to 00:30 in the schedule.
\<close>

theorem schedule_zero_width_period:
  "schedule (7, 0) 300 (utc_datetime 2019 10 4 18 30 0) (0, 30) (7, 30)
     [\<lparr>co2_from = utc_datetime 2019 9 28 0 0 0, co2_to = utc_datetime 2019 9 28 0 30 0, co2_intensity = 1\<rparr>,
      \<lparr>co2_from = utc_datetime 2019 9 28 0 30 0, co2_to = utc_datetime 2019 9 28 7 0 0, co2_intensity = 2\<rparr>]
     = Inr [(utc_datetime 2019 10 5 0 30 0, utc_datetime 2019 10 5 0 30 0),
            (utc_datetime 2019 10 5 0 30 0, utc_datetime 2019 10 5 5 30 0)] \<and>
   next_datetime_with_time (utc_datetime 2019 10 4 18 30 0) (7, 0) = Inr (utc_datetime 2019 10 5 7 0 0) \<and>
   timedelta_minutes 300 = Inr 18000000000 \<and>
   \<not> dt_sub (utc_datetime 2019 10 5 7 0 0) (utc_datetime 2019 10 4 18 30 0) \<le> 18000000000 \<and>
   \<not> utc_us (utc_datetime 2019 10 5 0 30 0) < utc_us (utc_datetime 2019 10 5 0 30 0)"
  by code_simp

lemma co2_forecasts_positive:
  assumes "co2_forecasts ps ms = Inr fs" and "e \<in> set fs"
    and "\<And>p. p \<in> set ps \<Longrightarrow> utc_us (fst p) < utc_us (snd p)"
    and "\<And>m. m \<in> set ms \<Longrightarrow> utc_us (co2_from m) < utc_us (co2_to m)"
    and "\<And>m p. m \<in> set ms \<Longrightarrow> p \<in> set ps \<Longrightarrow> \<not> touches m p"
  shows "0 < duration (fc_period e)"
proof -
  from co2_forecasts_mem [OF assms(1,2)] obtain m p zs where
    m: "m \<in> set ms" and p: "p \<in> set ps" and z: "clip_forecast m p = Inr zs" "e \<in> set zs" by blast
  note f = clip_forecast_entry [OF z]
  from assms(3) [OF p] assms(4) [OF m] assms(5) [OF m p] f(3,4) show ?thesis
    by (simp add: fc_period_def duration_pair f(1,2) touches_def)
qed

lemma optimize_co2_nonempty:
  assumes "optimize_co2 ps r ms = Inr out" and "p \<in> set out"
    and c: "\<And>q. q \<in> set ps \<Longrightarrow> utc_us (fst q) < utc_us (snd q)"
    and m: "\<And>m. m \<in> set ms \<Longrightarrow> utc_us (co2_from m) < utc_us (co2_to m)"
  shows "utc_us (fst p) \<le> utc_us (snd p)"
    and "(\<And>m q. m \<in> set ms \<Longrightarrow> q \<in> set ps \<Longrightarrow> \<not> touches m q)
           \<Longrightarrow> utc_us (fst p) < utc_us (snd p)"
proof -
  from optimize_co2_cases [OF assms(1)]
  have "utc_us (fst p) \<le> utc_us (snd p) \<and>
    ((\<forall>m q. m \<in> set ms \<longrightarrow> q \<in> set ps \<longrightarrow> \<not> touches m q) \<longrightarrow> utc_us (fst p) < utc_us (snd p))"
  proof (elim disjE conjE exE)
    assume "out = ps"
    with assms(2) c [of p] show ?thesis by simp
  next
    fix fs t
    assume fs: "co2_forecasts ps ms = Inr fs"
      and t: "greedy_spec r (sort_key fc_forecast fs) = Inr t"
      and out: "out = simplify_periods t"
    from assms(2) out have "p \<in> set t" by (simp add: set_simplify_periods)
    from greedy_taken [OF t this] obtain e where e: "e \<in> set fs"
      and pe: "p = fc_period e \<or> utc_us (fst p) < utc_us (snd p)"
      by auto
    have "0 \<le> duration (fc_period e)"
      by (rule co2_forecasts_nonneg [OF fs e]) (use c m in \<open>auto simp: less_imp_le\<close>)
    with pe have a: "utc_us (fst p) \<le> utc_us (snd p)"
      by (auto simp: fc_period_def duration_pair)
    have b: "utc_us (fst p) < utc_us (snd p)"
      if "\<forall>m q. m \<in> set ms \<longrightarrow> q \<in> set ps \<longrightarrow> \<not> touches m q"
    proof -
      have "0 < duration (fc_period e)"
        by (rule co2_forecasts_positive [OF fs e]) (use c m that in auto)
      with pe show ?thesis by (auto simp: fc_period_def duration_pair)
    qed
    from a b show ?thesis by blast
  qed
  then show "utc_us (fst p) \<le> utc_us (snd p)"
    and "(\<And>m q. m \<in> set ms \<Longrightarrow> q \<in> set ps \<Longrightarrow> \<not> touches m q)
           \<Longrightarrow> utc_us (fst p) < utc_us (snd p)"
    by blast+
qed

lemma schedule_nonempty:
  assumes v: "valid_datetime plug" and m: "\<And>m. m \<in> set readings \<Longrightarrow> utc_us (co2_from m) < utc_us (co2_to m)"
    and d: "next_datetime_with_time plug rbt = Inr deadline"
    and part: "off_peak_and_peak_periods plug deadline ops ope = Inr (off, peak)"
    and s: "schedule rbt cm plug ops ope readings = Inr sched" and p: "p \<in> set sched"
  shows "utc_us (fst p) \<le> utc_us (snd p)"
    and "(\<And>m q. m \<in> set readings \<Longrightarrow> q \<in> set off \<or> q \<in> set peak \<Longrightarrow> \<not> touches m q)
           \<Longrightarrow> utc_us (fst p) < utc_us (snd p)"
proof -
  have pd: "utc_us plug < utc_us deadline" by (rule next_datetime_with_time_Inr(1) [OF d v])
  from part v obtain s' e' where ps: "utc_us plug < utc_us s'" and pe: "utc_us plug < utc_us e'"
    and r: "(off, peak) = split_window plug deadline s' e'"
    by (rule off_peak_and_peak_periods_Inr)
  have strict: "utc_us (fst q) < utc_us (snd q)" if "q \<in> set off \<or> q \<in> set peak" for q
    by (rule split_window_strict [OF r ps pe pd that])
  from schedule_Inr [OF s] d obtain ct where
    c: "if dt_sub deadline plug \<le> ct then sched = [(plug, deadline)]
      else \<exists>cps. charging_periods_of plug deadline ct ops ope readings = Inr cps \<and>
             sched = simplify_periods cps"
    by auto
  have "utc_us (fst p) \<le> utc_us (snd p) \<and>
    ((\<forall>m q. m \<in> set readings \<longrightarrow> q \<in> set off \<or> q \<in> set peak \<longrightarrow> \<not> touches m q)
       \<longrightarrow> utc_us (fst p) < utc_us (snd p))"
  proof (cases "dt_sub deadline plug \<le> ct")
    case True
    with c p pd show ?thesis by simp
  next
    case False
    with c obtain cps where
      cps: "charging_periods_of plug deadline ct ops ope readings = Inr cps"
      and sc: "sched = simplify_periods cps"
      by auto
    from p sc have pc: "p \<in> set cps" by (simp add: set_simplify_periods)
    from charging_periods_of_Inr [OF cps] part have ab:
      "if ct \<le> total_duration off then optimize_co2 off ct readings = Inr cps
       else \<exists>opt. optimize_co2 peak (ct - total_duration off) readings = Inr opt \<and> cps = off @ opt"
      by auto
    show ?thesis
    proof (cases "ct \<le> total_duration off")
      case True
      with ab have o: "optimize_co2 off ct readings = Inr cps" by simp
      from optimize_co2_nonempty [OF o pc strict m] show ?thesis by blast
    next
      case False
      with ab obtain opt where o: "optimize_co2 peak (ct - total_duration off) readings = Inr opt"
        and ca: "cps = off @ opt" by auto
      from pc ca consider "p \<in> set off" | "p \<in> set opt" by auto
      then show ?thesis
      proof cases
        case 1
        with strict [of p] show ?thesis by simp
      next
        case 2
        from optimize_co2_nonempty [OF o 2 strict m] show ?thesis by blast
      qed
    qed
  qed
  then show "utc_us (fst p) \<le> utc_us (snd p)"
    and "(\<And>m q. m \<in> set readings \<Longrightarrow> q \<in> set off \<or> q \<in> set peak \<Longrightarrow> \<not> touches m q)
           \<Longrightarrow> utc_us (fst p) < utc_us (snd p)"
    by blast+
qed

text \<open>
  C6, as amended: for a ready-by instant after the plug-in, every period of the
  partitioner's two lists has its start strictly before its end. For candidates with
  their start before their end and readings with their start before their end, every
  period the allocator returns has its start no later than its end, and strictly before
  it when no reading touches a candidate. The same holds for the schedule, with the
  partitioner's periods as the candidates.
\<close>

theorem periods_nonempty:
  "(valid_datetime plug_in \<and> utc_us plug_in < utc_us ready_by \<and>
      off_peak_and_peak_periods plug_in ready_by off_peak_start off_peak_end = Inr (off, peak) \<longrightarrow>
      (\<forall>p\<in>set (off @ peak). utc_us (fst p) < utc_us (snd p))) \<and>
   ((\<forall>q\<in>set periods. utc_us (fst q) < utc_us (snd q)) \<and>
      (\<forall>co2\<in>set co2_measures. utc_us (co2_from co2) < utc_us (co2_to co2)) \<and>
      optimize_co2 periods charge_time co2_measures = Inr out \<longrightarrow>
      (\<forall>p\<in>set out. utc_us (fst p) \<le> utc_us (snd p)) \<and>
      ((\<forall>co2\<in>set co2_measures. \<forall>q\<in>set periods. \<not> touches co2 q) \<longrightarrow>
         (\<forall>p\<in>set out. utc_us (fst p) < utc_us (snd p)))) \<and>
   (valid_datetime plug_in' \<and>
      (\<forall>co2\<in>set readings. utc_us (co2_from co2) < utc_us (co2_to co2)) \<and>
      next_datetime_with_time plug_in' ready_by_time = Inr deadline \<and>
      off_peak_and_peak_periods plug_in' deadline off_peak_start' off_peak_end' = Inr (off', peak') \<and>
      schedule ready_by_time charge_minutes plug_in' off_peak_start' off_peak_end' readings
        = Inr sched \<longrightarrow>
      (\<forall>p\<in>set sched. utc_us (fst p) \<le> utc_us (snd p)) \<and>
      ((\<forall>co2\<in>set readings. \<forall>q\<in>set (off' @ peak'). \<not> touches co2 q) \<longrightarrow>
         (\<forall>p\<in>set sched. utc_us (fst p) < utc_us (snd p))))"
proof (intro conjI impI)
  assume a: "valid_datetime plug_in \<and> utc_us plug_in < utc_us ready_by \<and>
      off_peak_and_peak_periods plug_in ready_by off_peak_start off_peak_end = Inr (off, peak)"
  then obtain s e where ps: "utc_us plug_in < utc_us s" and pe: "utc_us plug_in < utc_us e"
    and r: "(off, peak) = split_window plug_in ready_by s e"
    using off_peak_and_peak_periods_Inr by blast
  from a have pd: "utc_us plug_in < utc_us ready_by" by simp
  show "\<forall>p\<in>set (off @ peak). utc_us (fst p) < utc_us (snd p)"
    using split_window_strict [OF r ps pe pd] by auto
next
  assume a: "(\<forall>q\<in>set periods. utc_us (fst q) < utc_us (snd q)) \<and>
      (\<forall>co2\<in>set co2_measures. utc_us (co2_from co2) < utc_us (co2_to co2)) \<and>
      optimize_co2 periods charge_time co2_measures = Inr out"
  then show "\<forall>p\<in>set out. utc_us (fst p) \<le> utc_us (snd p)"
    using optimize_co2_nonempty(1) by blast
  assume "\<forall>co2\<in>set co2_measures. \<forall>q\<in>set periods. \<not> touches co2 q"
  with a show "\<forall>p\<in>set out. utc_us (fst p) < utc_us (snd p)"
    using optimize_co2_nonempty(2) [of periods charge_time co2_measures out] by blast
next
  assume a: "valid_datetime plug_in' \<and>
      (\<forall>co2\<in>set readings. utc_us (co2_from co2) < utc_us (co2_to co2)) \<and>
      next_datetime_with_time plug_in' ready_by_time = Inr deadline \<and>
      off_peak_and_peak_periods plug_in' deadline off_peak_start' off_peak_end' = Inr (off', peak') \<and>
      schedule ready_by_time charge_minutes plug_in' off_peak_start' off_peak_end' readings
        = Inr sched"
  then show "\<forall>p\<in>set sched. utc_us (fst p) \<le> utc_us (snd p)"
    using schedule_nonempty(1) by blast
  assume "\<forall>co2\<in>set readings. \<forall>q\<in>set (off' @ peak'). \<not> touches co2 q"
  with a show "\<forall>p\<in>set sched. utc_us (fst p) < utc_us (snd p)"
    using schedule_nonempty(2) [of plug_in' readings ready_by_time deadline off_peak_start'
        off_peak_end' off' peak' charge_minutes sched]
    by (metis Un_iff set_append)
qed

theorem periods_nonempty_witness:
  "off_peak_and_peak_periods (utc_datetime 2019 10 4 18 42 12) (utc_datetime 2019 10 5 7 0 12) (0, 30) (7, 30)
     = Inr ([(utc_datetime 2019 10 5 0 30 12, utc_datetime 2019 10 5 7 0 12)],
            [(utc_datetime 2019 10 4 18 42 12, utc_datetime 2019 10 5 0 30 12)]) \<and>
   utc_us (utc_datetime 2019 10 5 0 30 12) < utc_us (utc_datetime 2019 10 5 7 0 12) \<and>
   utc_us (utc_datetime 2019 10 4 18 42 12) < utc_us (utc_datetime 2019 10 5 0 30 12) \<and>
   optimize_co2 [(utc_datetime 2019 10 5 0 30 12, utc_datetime 2019 10 5 7 0 12)] 18000000000
     [\<lparr>co2_from = utc_datetime 2019 9 28 0 0 0, co2_to = utc_datetime 2019 9 28 3 0 0, co2_intensity = 5\<rparr>,
      \<lparr>co2_from = utc_datetime 2019 9 28 3 0 0, co2_to = utc_datetime 2019 9 28 7 30 0, co2_intensity = 2\<rparr>]
     = Inr [(utc_datetime 2019 10 5 0 30 12, utc_datetime 2019 10 5 1 30 0),
      (utc_datetime 2019 10 5 3 0 0, utc_datetime 2019 10 5 7 0 12)] \<and>
   schedule (7, 0) 300 (utc_datetime 2019 10 4 18 42 12) (0, 30) (7, 30)
     [\<lparr>co2_from = utc_datetime 2019 9 28 0 0 0, co2_to = utc_datetime 2019 9 28 3 0 0, co2_intensity = 5\<rparr>,
      \<lparr>co2_from = utc_datetime 2019 9 28 3 0 0, co2_to = utc_datetime 2019 9 28 7 30 0, co2_intensity = 2\<rparr>]
     = Inr [(utc_datetime 2019 10 5 0 30 12, utc_datetime 2019 10 5 1 30 0),
      (utc_datetime 2019 10 5 3 0 0, utc_datetime 2019 10 5 7 0 12)] \<and>
   utc_us (utc_datetime 2019 10 5 0 30 12) < utc_us (utc_datetime 2019 10 5 1 30 0) \<and>
   utc_us (utc_datetime 2019 10 5 3 0 0) < utc_us (utc_datetime 2019 10 5 7 0 12)"
proof -
  have part: "off_peak_and_peak_periods (utc_datetime 2019 10 4 18 42 12) (utc_datetime 2019 10 5 7 0 12) (0, 30) (7, 30)
     = Inr ([(utc_datetime 2019 10 5 0 30 12, utc_datetime 2019 10 5 7 0 12)],
            [(utc_datetime 2019 10 4 18 42 12, utc_datetime 2019 10 5 0 30 12)])"
    by code_simp
  have opt: "optimize_co2 [(utc_datetime 2019 10 5 0 30 12, utc_datetime 2019 10 5 7 0 12)] 18000000000
     [\<lparr>co2_from = utc_datetime 2019 9 28 0 0 0, co2_to = utc_datetime 2019 9 28 3 0 0, co2_intensity = 5\<rparr>,
      \<lparr>co2_from = utc_datetime 2019 9 28 3 0 0, co2_to = utc_datetime 2019 9 28 7 30 0, co2_intensity = 2\<rparr>]
     = Inr [(utc_datetime 2019 10 5 0 30 12, utc_datetime 2019 10 5 1 30 0),
      (utc_datetime 2019 10 5 3 0 0, utc_datetime 2019 10 5 7 0 12)]"
    by code_simp
  have sch: "schedule (7, 0) 300 (utc_datetime 2019 10 4 18 42 12) (0, 30) (7, 30)
     [\<lparr>co2_from = utc_datetime 2019 9 28 0 0 0, co2_to = utc_datetime 2019 9 28 3 0 0, co2_intensity = 5\<rparr>,
      \<lparr>co2_from = utc_datetime 2019 9 28 3 0 0, co2_to = utc_datetime 2019 9 28 7 30 0, co2_intensity = 2\<rparr>]
     = Inr [(utc_datetime 2019 10 5 0 30 12, utc_datetime 2019 10 5 1 30 0),
      (utc_datetime 2019 10 5 3 0 0, utc_datetime 2019 10 5 7 0 12)]"
    by code_simp
  have h1: "valid_datetime (utc_datetime 2019 10 4 18 42 12)" by code_simp
  have h2: "utc_us (utc_datetime 2019 10 4 18 42 12) < utc_us (utc_datetime 2019 10 5 7 0 12)" by code_simp
  have h3: "\<forall>q\<in>set [(utc_datetime 2019 10 5 0 30 12, utc_datetime 2019 10 5 7 0 12)]. utc_us (fst q) < utc_us (snd q)"
    by code_simp
  have h4: "\<forall>co2\<in>set [\<lparr>co2_from = utc_datetime 2019 9 28 0 0 0, co2_to = utc_datetime 2019 9 28 3 0 0, co2_intensity = 5\<rparr>,
      \<lparr>co2_from = utc_datetime 2019 9 28 3 0 0, co2_to = utc_datetime 2019 9 28 7 30 0, co2_intensity = 2\<rparr>]. utc_us (co2_from co2) < utc_us (co2_to co2)"
    by code_simp
  have h5: "\<forall>co2\<in>set [\<lparr>co2_from = utc_datetime 2019 9 28 0 0 0, co2_to = utc_datetime 2019 9 28 3 0 0, co2_intensity = 5\<rparr>,
      \<lparr>co2_from = utc_datetime 2019 9 28 3 0 0, co2_to = utc_datetime 2019 9 28 7 30 0, co2_intensity = 2\<rparr>]. \<forall>q\<in>set [(utc_datetime 2019 10 5 0 30 12, utc_datetime 2019 10 5 7 0 12)]. \<not> touches co2 q"
    by code_simp
  have h6: "\<forall>co2\<in>set [\<lparr>co2_from = utc_datetime 2019 9 28 0 0 0, co2_to = utc_datetime 2019 9 28 3 0 0, co2_intensity = 5\<rparr>,
      \<lparr>co2_from = utc_datetime 2019 9 28 3 0 0, co2_to = utc_datetime 2019 9 28 7 30 0, co2_intensity = 2\<rparr>]. \<forall>q\<in>set ([(utc_datetime 2019 10 5 0 30 12, utc_datetime 2019 10 5 7 0 12)] @ [(utc_datetime 2019 10 4 18 42 12, utc_datetime 2019 10 5 0 30 12)]). \<not> touches co2 q"
    by code_simp
  from periods_nonempty [of "utc_datetime 2019 10 4 18 42 12" "(utc_datetime 2019 10 5 7 0 12)" "(0, 30)" "(7, 30)"
      "[(utc_datetime 2019 10 5 0 30 12, utc_datetime 2019 10 5 7 0 12)]"
      "[(utc_datetime 2019 10 4 18 42 12, utc_datetime 2019 10 5 0 30 12)]"
      "[(utc_datetime 2019 10 5 0 30 12, utc_datetime 2019 10 5 7 0 12)]"
      "[\<lparr>co2_from = utc_datetime 2019 9 28 0 0 0, co2_to = utc_datetime 2019 9 28 3 0 0, co2_intensity = 5\<rparr>,
      \<lparr>co2_from = utc_datetime 2019 9 28 3 0 0, co2_to = utc_datetime 2019 9 28 7 30 0, co2_intensity = 2\<rparr>]"
      18000000000
      "[(utc_datetime 2019 10 5 0 30 12, utc_datetime 2019 10 5 1 30 0),
      (utc_datetime 2019 10 5 3 0 0, utc_datetime 2019 10 5 7 0 12)]"
      "utc_datetime 2019 10 4 18 42 12"
      "[\<lparr>co2_from = utc_datetime 2019 9 28 0 0 0, co2_to = utc_datetime 2019 9 28 3 0 0, co2_intensity = 5\<rparr>,
      \<lparr>co2_from = utc_datetime 2019 9 28 3 0 0, co2_to = utc_datetime 2019 9 28 7 30 0, co2_intensity = 2\<rparr>]"
      "(7, 0)" "(utc_datetime 2019 10 5 7 0 12)" "(0, 30)" "(7, 30)"
      "[(utc_datetime 2019 10 5 0 30 12, utc_datetime 2019 10 5 7 0 12)]"
      "[(utc_datetime 2019 10 4 18 42 12, utc_datetime 2019 10 5 0 30 12)]"
      300
      "[(utc_datetime 2019 10 5 0 30 12, utc_datetime 2019 10 5 1 30 0),
      (utc_datetime 2019 10 5 3 0 0, utc_datetime 2019 10 5 7 0 12)]"]
    part opt sch h1 h2 h3 h4 h5 h6 scenario_deadline
  show ?thesis by simp
qed

section \<open>The total duration of the schedule\<close>

text \<open>
  C1. The claim is that \<^verbatim>\<open>schedule\<close> returns the single period from plug-in to
  deadline when the window is no longer than the charge duration, and otherwise a
  schedule whose total duration is the charge duration. The second part fails when the
  readings do not cover enough of the candidate periods: with the plug-in at
  2019-10-04T18:42:12Z, ready-by 07:00, 300 minutes, the off-peak window from 00:30 to
  07:30 and no reading, the window is longer than the charge duration and the schedule
  is empty.
\<close>

theorem schedule_empty_forecasts:
  "schedule (7, 0) 300 (utc_datetime 2019 10 4 18 42 12) (0, 30) (7, 30) [] = Inr [] \<and>
   next_datetime_with_time (utc_datetime 2019 10 4 18 42 12) (7, 0) = Inr (utc_datetime 2019 10 5 7 0 12) \<and>
   timedelta_minutes 300 = Inr 18000000000 \<and>
   \<not> dt_sub (utc_datetime 2019 10 5 7 0 12) (utc_datetime 2019 10 4 18 42 12) \<le> 18000000000 \<and>
   total_duration [] \<noteq> 18000000000"
  by code_simp

text \<open>
  C1, as amended: for a valid plug-in datetime before the last day Python can hold, a
  well-formed ready-by time and a charge duration of at least 0 minutes (and within the
  range of a \<^verbatim>\<open>timedelta\<close>), the deadline is computed, and if the window from plug-in
  to deadline is no longer than the charge duration (also when it is exactly as long),
  \<^verbatim>\<open>schedule\<close> returns exactly the single period from plug-in to deadline;
  otherwise a schedule that is returned totals at most the charge duration, and exactly
  the charge duration when the aligned forecast entries of the periods handed to
  \<^verbatim>\<open>optimize_co2\<close> total at least the duration asked of it. In both cases a
  schedule is returned when the off-peak times are well formed, the plug-in is at least
  three days before the last day and the readings at least nine.
\<close>

theorem schedule_total:
  assumes "valid_datetime plug_in" and "dt_ordinal plug_in < MAXORDINAL"
    and "valid_time ready_by" and "0 \<le> charge_minutes" and "charge_minutes < 1440000000000"
  shows "\<exists>charge_time deadline.
     timedelta_minutes charge_minutes = Inr charge_time \<and>
     charge_time = charge_minutes * 60000000 \<and>
     next_datetime_with_time plug_in ready_by = Inr deadline \<and>
     (if dt_sub deadline plug_in \<le> charge_time then
        schedule ready_by charge_minutes plug_in off_peak_start off_peak_end readings
          = Inr [(plug_in, deadline)]
      else
        (\<forall>sched. schedule ready_by charge_minutes plug_in off_peak_start off_peak_end readings
                 = Inr sched \<longrightarrow>
           total_duration sched \<le> charge_time \<and>
           (\<forall>off peak forecasts.
              off_peak_and_peak_periods plug_in deadline off_peak_start off_peak_end
                = Inr (off, peak) \<and>
              co2_forecasts (fst (allocation_request off peak charge_time)) readings
                = Inr forecasts \<and>
              snd (allocation_request off peak charge_time)
                \<le> total_duration (map fc_period forecasts) \<longrightarrow>
              total_duration sched = charge_time))) \<and>
     (dt_ordinal plug_in + 3 \<le> MAXORDINAL \<and>
      valid_time off_peak_start \<and> valid_time off_peak_end \<and>
      (\<forall>co2\<in>set readings. in_range 9 (co2_from co2) \<and> in_range 9 (co2_to co2)) \<longrightarrow>
      (\<exists>sched. schedule ready_by charge_minutes plug_in off_peak_start off_peak_end readings
                = Inr sched))"
proof -
  let ?ct = "charge_minutes * 60000000"
  have ct: "timedelta_minutes charge_minutes = Inr ?ct"
    by (rule timedelta_minutes_ok [OF assms(4,5)])
  obtain deadline where d: "next_datetime_with_time plug_in ready_by = Inr deadline"
    using next_datetime_with_time_ok [OF assms(1,3,2)] by blast
  have pd: "utc_us plug_in < utc_us deadline"
    by (rule next_datetime_with_time_Inr(1) [OF d assms(1)])
  have nn: "0 \<le> ?ct" using assms(4) by simp
  have short: "schedule ready_by charge_minutes plug_in off_peak_start off_peak_end readings
          = Inr [(plug_in, deadline)]" if "dt_sub deadline plug_in \<le> ?ct"
    using that by (simp add: schedule_def ct d)
  have long: "total_duration sched \<le> ?ct \<and>
           (\<forall>off peak forecasts.
              off_peak_and_peak_periods plug_in deadline off_peak_start off_peak_end
                = Inr (off, peak) \<and>
              co2_forecasts (fst (allocation_request off peak ?ct)) readings = Inr forecasts \<and>
              snd (allocation_request off peak ?ct) \<le> total_duration (map fc_period forecasts) \<longrightarrow>
              total_duration sched = ?ct)"
    if n: "\<not> dt_sub deadline plug_in \<le> ?ct"
      and s: "schedule ready_by charge_minutes plug_in off_peak_start off_peak_end readings
                 = Inr sched" for sched
  proof -
    from schedule_Inr [OF s] ct d n obtain cps where
      cps: "charging_periods_of plug_in deadline ?ct off_peak_start off_peak_end readings = Inr cps"
      and sc: "sched = simplify_periods cps"
      by auto
    from n have lt: "?ct < utc_us deadline - utc_us plug_in" by (simp add: dt_sub_def)
    from charging_periods_of_Inr [OF cps] obtain off0 peak0 where
      p0: "off_peak_and_peak_periods plug_in deadline off_peak_start off_peak_end = Inr (off0, peak0)"
      by blast
    have "total_duration sched \<le> ?ct"
      using charging_periods_of_total(1) [OF cps assms(1) pd nn lt p0]
      by (simp add: sc total_duration_simplify)
    moreover have "total_duration sched = ?ct"
      if "off_peak_and_peak_periods plug_in deadline off_peak_start off_peak_end = Inr (off, peak)"
        "co2_forecasts (fst (allocation_request off peak ?ct)) readings = Inr forecasts"
        "snd (allocation_request off peak ?ct) \<le> total_duration (map fc_period forecasts)"
      for off peak forecasts
      using charging_periods_of_total(2) [OF cps assms(1) pd nn lt that]
      by (simp add: sc total_duration_simplify)
    ultimately show ?thesis by blast
  qed
  have returns: "\<exists>sched. schedule ready_by charge_minutes plug_in off_peak_start off_peak_end
      readings = Inr sched"
    if "dt_ordinal plug_in + 3 \<le> MAXORDINAL \<and>
      valid_time off_peak_start \<and> valid_time off_peak_end \<and>
      (\<forall>co2\<in>set readings. in_range 9 (co2_from co2) \<and> in_range 9 (co2_to co2))"
    using that by (intro schedule_ok [OF assms(1) _ assms(3) _ _ assms(4,5)]) auto
  have branch: "if dt_sub deadline plug_in \<le> ?ct then
        schedule ready_by charge_minutes plug_in off_peak_start off_peak_end readings
          = Inr [(plug_in, deadline)]
      else
        (\<forall>sched. schedule ready_by charge_minutes plug_in off_peak_start off_peak_end readings
                 = Inr sched \<longrightarrow>
           total_duration sched \<le> ?ct \<and>
           (\<forall>off peak forecasts.
              off_peak_and_peak_periods plug_in deadline off_peak_start off_peak_end
                = Inr (off, peak) \<and>
              co2_forecasts (fst (allocation_request off peak ?ct)) readings = Inr forecasts \<and>
              snd (allocation_request off peak ?ct) \<le> total_duration (map fc_period forecasts) \<longrightarrow>
              total_duration sched = ?ct))"
  proof (cases "dt_sub deadline plug_in \<le> ?ct")
    case True
    with short show ?thesis by simp
  next
    case False
    with long show ?thesis by (simp only: if_False) blast
  qed
  show ?thesis
  proof (intro exI [of _ ?ct] exI [of _ deadline] conjI impI)
    show "timedelta_minutes charge_minutes = Inr ?ct" by (rule ct)
    show "?ct = charge_minutes * 60000000" by simp
    show "next_datetime_with_time plug_in ready_by = Inr deadline" by (rule d)
    show "if dt_sub deadline plug_in \<le> ?ct then
        schedule ready_by charge_minutes plug_in off_peak_start off_peak_end readings
          = Inr [(plug_in, deadline)]
      else
        (\<forall>sched. schedule ready_by charge_minutes plug_in off_peak_start off_peak_end readings
                 = Inr sched \<longrightarrow>
           total_duration sched \<le> ?ct \<and>
           (\<forall>off peak forecasts.
              off_peak_and_peak_periods plug_in deadline off_peak_start off_peak_end
                = Inr (off, peak) \<and>
              co2_forecasts (fst (allocation_request off peak ?ct)) readings = Inr forecasts \<and>
              snd (allocation_request off peak ?ct) \<le> total_duration (map fc_period forecasts) \<longrightarrow>
              total_duration sched = ?ct))"
      by (rule branch)
    assume "dt_ordinal plug_in + 3 \<le> MAXORDINAL \<and>
      valid_time off_peak_start \<and> valid_time off_peak_end \<and>
      (\<forall>co2\<in>set readings. in_range 9 (co2_from co2) \<and> in_range 9 (co2_to co2))"
    then show "\<exists>sched. schedule ready_by charge_minutes plug_in off_peak_start off_peak_end
      readings = Inr sched"
      by (rule returns)
  qed
qed

theorem schedule_total_witness:
  "valid_datetime (utc_datetime 2019 10 4 18 42 12) \<and>
   dt_ordinal (utc_datetime 2019 10 4 18 42 12) < MAXORDINAL \<and> valid_time (7, 0) \<and>
   dt_sub (utc_datetime 2019 10 5 7 0 12) (utc_datetime 2019 10 4 18 42 12) = 738 * 60000000 \<and>
   schedule (7, 0) 738 (utc_datetime 2019 10 4 18 42 12) (0, 30) (7, 30)
     [\<lparr>co2_from = utc_datetime 2019 9 28 0 0 0, co2_to = utc_datetime 2019 9 28 3 0 0, co2_intensity = 5\<rparr>,
      \<lparr>co2_from = utc_datetime 2019 9 28 3 0 0, co2_to = utc_datetime 2019 9 28 7 30 0, co2_intensity = 2\<rparr>]
     = Inr [(utc_datetime 2019 10 4 18 42 12, utc_datetime 2019 10 5 7 0 12)] \<and>
   schedule (7, 0) 300 (utc_datetime 2019 10 4 18 42 12) (0, 30) (7, 30)
     [\<lparr>co2_from = utc_datetime 2019 9 28 0 0 0, co2_to = utc_datetime 2019 9 28 3 0 0, co2_intensity = 5\<rparr>,
      \<lparr>co2_from = utc_datetime 2019 9 28 3 0 0, co2_to = utc_datetime 2019 9 28 7 30 0, co2_intensity = 2\<rparr>]
     = Inr [(utc_datetime 2019 10 5 0 30 12, utc_datetime 2019 10 5 1 30 0),
      (utc_datetime 2019 10 5 3 0 0, utc_datetime 2019 10 5 7 0 12)] \<and>
   total_duration [(utc_datetime 2019 10 5 0 30 12, utc_datetime 2019 10 5 1 30 0),
      (utc_datetime 2019 10 5 3 0 0, utc_datetime 2019 10 5 7 0 12)] = 300 * 60000000"
proof -
  have h1: "valid_datetime (utc_datetime 2019 10 4 18 42 12)" by code_simp
  have h2: "dt_ordinal (utc_datetime 2019 10 4 18 42 12) < MAXORDINAL" by code_simp
  have h3: "valid_time (7, 0)" by code_simp
  have w: "dt_sub (utc_datetime 2019 10 5 7 0 12) (utc_datetime 2019 10 4 18 42 12) = 738 * 60000000"
    by code_simp
  have s: "schedule (7, 0) 300 (utc_datetime 2019 10 4 18 42 12) (0, 30) (7, 30)
     [\<lparr>co2_from = utc_datetime 2019 9 28 0 0 0, co2_to = utc_datetime 2019 9 28 3 0 0, co2_intensity = 5\<rparr>,
      \<lparr>co2_from = utc_datetime 2019 9 28 3 0 0, co2_to = utc_datetime 2019 9 28 7 30 0, co2_intensity = 2\<rparr>]
     = Inr [(utc_datetime 2019 10 5 0 30 12, utc_datetime 2019 10 5 1 30 0),
      (utc_datetime 2019 10 5 3 0 0, utc_datetime 2019 10 5 7 0 12)]"
    by code_simp
  have p: "off_peak_and_peak_periods (utc_datetime 2019 10 4 18 42 12) (utc_datetime 2019 10 5 7 0 12) (0, 30) (7, 30)
     = Inr ([(utc_datetime 2019 10 5 0 30 12, utc_datetime 2019 10 5 7 0 12)],
            [(utc_datetime 2019 10 4 18 42 12, utc_datetime 2019 10 5 0 30 12)])"
    by code_simp
  have f: "co2_forecasts (fst (allocation_request [(utc_datetime 2019 10 5 0 30 12, utc_datetime 2019 10 5 7 0 12)]
        [(utc_datetime 2019 10 4 18 42 12, utc_datetime 2019 10 5 0 30 12)] (300 * 60000000)))
     [\<lparr>co2_from = utc_datetime 2019 9 28 0 0 0, co2_to = utc_datetime 2019 9 28 3 0 0, co2_intensity = 5\<rparr>,
      \<lparr>co2_from = utc_datetime 2019 9 28 3 0 0, co2_to = utc_datetime 2019 9 28 7 30 0, co2_intensity = 2\<rparr>]
     = Inr [\<lparr>fc_from = utc_datetime 2019 10 5 0 30 12, fc_to = utc_datetime 2019 10 5 3 0 0,
              fc_forecast = 5\<rparr>,
            \<lparr>fc_from = utc_datetime 2019 10 5 3 0 0, fc_to = utc_datetime 2019 10 5 7 0 12,
              fc_forecast = 2\<rparr>]"
    by code_simp
  have c: "snd (allocation_request [(utc_datetime 2019 10 5 0 30 12, utc_datetime 2019 10 5 7 0 12)]
        [(utc_datetime 2019 10 4 18 42 12, utc_datetime 2019 10 5 0 30 12)] (300 * 60000000))
     \<le> total_duration (map fc_period
       [\<lparr>fc_from = utc_datetime 2019 10 5 0 30 12, fc_to = utc_datetime 2019 10 5 3 0 0,
              fc_forecast = 5\<rparr>,
            \<lparr>fc_from = utc_datetime 2019 10 5 3 0 0, fc_to = utc_datetime 2019 10 5 7 0 12,
              fc_forecast = 2\<rparr>])"
    by code_simp
  have n: "\<not> dt_sub (utc_datetime 2019 10 5 7 0 12) (utc_datetime 2019 10 4 18 42 12) \<le> 300 * 60000000"
    by code_simp
  have short: "schedule (7, 0) 738 (utc_datetime 2019 10 4 18 42 12) (0, 30) (7, 30)
     [\<lparr>co2_from = utc_datetime 2019 9 28 0 0 0, co2_to = utc_datetime 2019 9 28 3 0 0, co2_intensity = 5\<rparr>,
      \<lparr>co2_from = utc_datetime 2019 9 28 3 0 0, co2_to = utc_datetime 2019 9 28 7 30 0, co2_intensity = 2\<rparr>]
     = Inr [(utc_datetime 2019 10 4 18 42 12, utc_datetime 2019 10 5 7 0 12)]"
    using schedule_total [OF h1 h2 h3, of 738 "(0, 30)" "(7, 30)"
        "[\<lparr>co2_from = utc_datetime 2019 9 28 0 0 0, co2_to = utc_datetime 2019 9 28 3 0 0, co2_intensity = 5\<rparr>,
      \<lparr>co2_from = utc_datetime 2019 9 28 3 0 0, co2_to = utc_datetime 2019 9 28 7 30 0, co2_intensity = 2\<rparr>]"] w
    by (simp add: scenario_deadline)
  have "\<forall>sched. schedule (7, 0) 300 (utc_datetime 2019 10 4 18 42 12) (0, 30) (7, 30)
     [\<lparr>co2_from = utc_datetime 2019 9 28 0 0 0, co2_to = utc_datetime 2019 9 28 3 0 0, co2_intensity = 5\<rparr>,
      \<lparr>co2_from = utc_datetime 2019 9 28 3 0 0, co2_to = utc_datetime 2019 9 28 7 30 0, co2_intensity = 2\<rparr>] = Inr sched \<longrightarrow>
      total_duration sched \<le> 300 * 60000000 \<and>
      (\<forall>off peak forecasts.
         off_peak_and_peak_periods (utc_datetime 2019 10 4 18 42 12) (utc_datetime 2019 10 5 7 0 12) (0, 30) (7, 30) = Inr (off, peak) \<and>
         co2_forecasts (fst (allocation_request off peak (300 * 60000000)))
           [\<lparr>co2_from = utc_datetime 2019 9 28 0 0 0, co2_to = utc_datetime 2019 9 28 3 0 0, co2_intensity = 5\<rparr>,
      \<lparr>co2_from = utc_datetime 2019 9 28 3 0 0, co2_to = utc_datetime 2019 9 28 7 30 0, co2_intensity = 2\<rparr>] = Inr forecasts \<and>
         snd (allocation_request off peak (300 * 60000000))
           \<le> total_duration (map fc_period forecasts) \<longrightarrow>
         total_duration sched = 300 * 60000000)"
    using schedule_total [OF h1 h2 h3, of 300 "(0, 30)" "(7, 30)"
        "[\<lparr>co2_from = utc_datetime 2019 9 28 0 0 0, co2_to = utc_datetime 2019 9 28 3 0 0, co2_intensity = 5\<rparr>,
      \<lparr>co2_from = utc_datetime 2019 9 28 3 0 0, co2_to = utc_datetime 2019 9 28 7 30 0, co2_intensity = 2\<rparr>]"] n
    by (simp add: scenario_deadline)
  with s p f c have "total_duration [(utc_datetime 2019 10 5 0 30 12, utc_datetime 2019 10 5 1 30 0),
      (utc_datetime 2019 10 5 3 0 0, utc_datetime 2019 10 5 7 0 12)] = 300 * 60000000"
    by blast
  with h1 h2 h3 w short s show ?thesis by blast
qed

end
